theory Spec2Isabelle
  imports Complex_Main "HOL-Library.Sublist"
begin

section \<open>Python values\<close>

text \<open>
  A Python \<open>str\<close> is modelled as a \<open>string\<close> whose characters are the code points
  below 256; \<open>len\<close>, slicing, \<open>lower\<close> and \<open>strip\<close> are exact on that range.
  A \<open>bytes\<close> value is a list of characters as well, one per byte. Exceptions are
  values of \<open>py_error\<close>; its last constructor, \<open>OutsideModel\<close>, is no exception of
  Python: it marks a run that produces a string with a code point from 256 on, which
  the model does not follow.
\<close>

type_synonym bytes = string

definition py_isspace :: "char \<Rightarrow> bool" where
  "py_isspace c =
     (let n = (of_char c :: nat)
      in (9 \<le> n \<and> n \<le> 13) \<or> (28 \<le> n \<and> n \<le> 32) \<or> n = 133 \<or> n = 160)"

definition py_strip :: "string \<Rightarrow> string" where
  "py_strip s = rev (dropWhile py_isspace (rev (dropWhile py_isspace s)))"

definition py_lower_char :: "char \<Rightarrow> char" where
  "py_lower_char c =
     (let n = (of_char c :: nat)
      in if (65 \<le> n \<and> n \<le> 90) \<or> (192 \<le> n \<and> n \<le> 222 \<and> n \<noteq> 215)
         then char_of (n + 32) else c)"

definition py_lower :: "string \<Rightarrow> string" where
  "py_lower s = map py_lower_char s"

definition py_or :: "'a list \<Rightarrow> 'a list \<Rightarrow> 'a list" where
  \<comment> \<open>\<open>s or d\<close> on sequences: an empty sequence is falsy.\<close>
  "py_or s d = (if s = [] then d else s)"

fun startswith :: "'a list \<Rightarrow> 'a list \<Rightarrow> bool" where
  "startswith s [] = True"
| "startswith [] (p # ps) = False"
| "startswith (c # cs) (p # ps) = (c = p \<and> startswith cs ps)"

fun py_in :: "string \<Rightarrow> string \<Rightarrow> bool" where
  \<comment> \<open>\<open>sub in s\<close> on strings.\<close>
  "py_in sub [] = (sub = [])"
| "py_in sub (c # cs) = (startswith (c # cs) sub \<or> py_in sub cs)"

fun show_nat :: "nat \<Rightarrow> string" where
  \<comment> \<open>The decimal text of a non-negative integer, as an f-string prints it.\<close>
  "show_nat n =
     (if n < 10 then [char_of (48 + n)]
      else show_nat (n div 10) @ [char_of (48 + n mod 10)])"

declare show_nat.simps [simp del]

text \<open>
  The values \<open>json.loads\<close> produces. A float keeps its lexeme; an object is the list of
  its items in insertion order, as a \<open>dict\<close> holds them.
\<close>

datatype json =
    JNull
  | JBool bool
  | JInt int
  | JFloat string
  | JStr string
  | JArr "json list"
  | JObj "(string \<times> json) list"

record http_request =
  req_url :: string
  req_headers :: "(string \<times> string) list"
  req_json :: json

record http_response =
  resp_status_code :: nat
  resp_content :: string
  resp_text_readable :: bool
  resp_request :: http_request

datatype py_error =
    ValueError string
  | TypeError
  | KeyError
  | IndexError
  | AttributeError
  | NotImplementedError
  | JSONDecodeError
  | RecursionError
  | TransportError
  | HTTPStatusError string http_request http_response
  | RetryError py_error
  | ValidationError
  | PackageNotFoundError
  | LibraryError
  | OutsideModel

section \<open>The template document (pptx\_builder.py)\<close>

text \<open>
  The document object of python-pptx, reduced to what the builder reads: the layouts with
  the placeholders a new slide receives from them, and the shapes of the slides the
  template already has. A picture whose \<open>image.blob\<close> raises is \<open>Picture None\<close>; a shape
  whose \<open>shape_type\<close> raises is \<open>UnknownShape\<close>.
\<close>

record placeholder =
  ph_idx :: nat
  ph_has_text_frame :: bool
  ph_type :: nat
  ph_left :: int
  ph_top :: int
  ph_width :: int
  ph_height :: int

record layout =
  l_name :: string
  l_placeholders :: "placeholder list"

datatype shape = Picture "bytes option" | OtherShape | UnknownShape

record presentation =
  prs_slide_layouts :: "py_error + layout list"
  prs_slides :: "shape list list"

text \<open>
  The uploaded stream is represented by what \<open>Presentation(template_io)\<close> makes of it:
  an exception for bytes that are no package, the document otherwise.
\<close>

type_synonym template_io = "py_error + presentation"

definition Presentation :: "template_io \<Rightarrow> py_error + presentation" where
  "Presentation template_io = template_io"

subsection \<open>collect\_template\_images\<close>

fun scan_shapes :: "shape list \<Rightarrow> bytes list \<Rightarrow> py_error + bytes list" where
  "scan_shapes [] blobs = Inr blobs"
| "scan_shapes (Picture (Some b) # shps) blobs = scan_shapes shps (blobs @ [b])"
| "scan_shapes (Picture None # shps) blobs = scan_shapes shps blobs"
| "scan_shapes (OtherShape # shps) blobs = scan_shapes shps blobs"
| "scan_shapes (UnknownShape # shps) blobs = Inl NotImplementedError"

fun scan_slides :: "shape list list \<Rightarrow> bytes list \<Rightarrow> py_error + bytes list" where
  "scan_slides [] blobs = Inr blobs"
| "scan_slides (sl # sls) blobs =
     (case scan_shapes sl blobs of
        Inl e \<Rightarrow> Inl e
      | Inr blobs' \<Rightarrow> scan_slides sls blobs')"

fun dedup_loop :: "int \<Rightarrow> bytes list \<Rightarrow> bytes list \<Rightarrow> nat set \<Rightarrow> bytes list" where
  "dedup_loop limit [] uniq seen = uniq"
| "dedup_loop limit (b # bs) uniq seen =
     (let fresh = (b \<noteq> [] \<and> length b \<notin> seen);
          uniq' = (if fresh then uniq @ [b] else uniq);
          seen' = (if fresh then insert (length b) seen else seen)
      in if int (length uniq') \<ge> limit then uniq' else dedup_loop limit bs uniq' seen')"

definition collect_template_images :: "template_io \<Rightarrow> int \<Rightarrow> py_error + bytes list" where
  "collect_template_images template_io limit =
     (case Presentation template_io of
        Inl e \<Rightarrow> Inl e
      | Inr prs \<Rightarrow>
          (case scan_slides (prs_slides prs) [] of
             Inl e \<Rightarrow> Inl e
           | Inr blobs \<Rightarrow> Inr (dedup_loop limit blobs [] {})))"

subsection \<open>\_choose\_layout\<close>

definition layout_names :: "layout list \<Rightarrow> string list" where
  "layout_names ls =
     map (\<lambda>(i, l). py_or (l_name l) (''layout-'' @ show_nat i)) (enumerate 0 ls)"

definition priority :: "string list" where
  "priority =
     [''Title and Content'', ''Title and Vertical Text'', ''Two Content'',
      ''Title Only'', ''Section Header'', ''Content with Caption'']"

definition exact_match :: "layout list \<Rightarrow> string list \<Rightarrow> string \<Rightarrow> layout option" where
  "exact_match ls names layout_hint =
     map_option snd
       (find (\<lambda>(i, l). py_lower (names ! i) = py_lower (py_or layout_hint [])) (enumerate 0 ls))"

definition substring_match :: "layout list \<Rightarrow> string list \<Rightarrow> string \<Rightarrow> layout option" where
  "substring_match ls names want =
     map_option snd
       (find (\<lambda>(i, l). py_in (py_lower want) (py_lower (py_or (names ! i) []))) (enumerate 0 ls))"

fun priority_loop :: "string list \<Rightarrow> layout list \<Rightarrow> string list \<Rightarrow> layout option" where
  "priority_loop [] ls names = None"
| "priority_loop (want # wants) ls names =
     (case substring_match ls names want of
        Some l \<Rightarrow> Some l
      | None \<Rightarrow> priority_loop wants ls names)"

definition choose_layout :: "presentation \<Rightarrow> string \<Rightarrow> py_error + layout" where
  "choose_layout prs layout_hint =
     (case prs_slide_layouts prs of
        Inl e \<Rightarrow> Inl e
      | Inr ls \<Rightarrow>
          (let names = layout_names ls in
           case exact_match ls names layout_hint of
             Some l \<Rightarrow> Inr l
           | None \<Rightarrow>
               (case priority_loop priority ls names of
                  Some l \<Rightarrow> Inr l
                | None \<Rightarrow>
                    (let k = (if length ls > 1 then 1 else 0)
                     in if k < length ls then Inr (ls ! k) else Inl IndexError))))"

subsection \<open>The deck (models.py)\<close>

record slide =
  s_title :: string
  s_bullets :: "string list"
  s_layout_hint :: "string option"
  s_notes :: "string option"

record slide_deck =
  d_slides :: "slide list"
  d_tone :: "string option"
  d_use_case :: "string option"
  d_fill_missing_notes :: bool
  d_llm :: "json option"

definition clamp_bullets :: "string list \<Rightarrow> string list" where
  "clamp_bullets v = take 8 v"

text \<open>
  Validation of one slide of the outline, as pydantic runs it on the parsed JSON: \<open>title\<close>
  is required, a string of at most 120 characters; \<open>bullets\<close> is a list of strings,
  empty when absent, and \<open>clamp_bullets\<close> runs on the validated list; \<open>layout_hint\<close> and
  \<open>notes\<close> are strings or null, with their defaults when absent.
\<close>

fun validate_str :: "json \<Rightarrow> py_error + string" where
  "validate_str (JStr s) = Inr s"
| "validate_str _ = Inl ValidationError"

fun validate_optional_str :: "json \<Rightarrow> py_error + string option" where
  "validate_optional_str JNull = Inr None"
| "validate_optional_str (JStr s) = Inr (Some s)"
| "validate_optional_str _ = Inl ValidationError"

fun validate_str_items :: "json list \<Rightarrow> py_error + string list" where
  "validate_str_items [] = Inr []"
| "validate_str_items (v # vs) =
     (case validate_str v of
        Inl e \<Rightarrow> Inl e
      | Inr s \<Rightarrow>
          (case validate_str_items vs of
             Inl e \<Rightarrow> Inl e
           | Inr ss \<Rightarrow> Inr (s # ss)))"

fun validate_str_list :: "json \<Rightarrow> py_error + string list" where
  "validate_str_list (JArr vs) = validate_str_items vs"
| "validate_str_list _ = Inl ValidationError"

definition validate_title :: "(string \<times> json) list \<Rightarrow> py_error + string" where
  "validate_title kvs =
     (case map_of kvs ''title'' of
        None \<Rightarrow> Inl ValidationError
      | Some v \<Rightarrow>
          (case validate_str v of
             Inl e \<Rightarrow> Inl e
           | Inr s \<Rightarrow> if length s \<le> 120 then Inr s else Inl ValidationError))"

definition validate_bullets :: "(string \<times> json) list \<Rightarrow> py_error + string list" where
  "validate_bullets kvs =
     (case map_of kvs ''bullets'' of
        None \<Rightarrow> Inr []
      | Some v \<Rightarrow>
          (case validate_str_list v of
             Inl e \<Rightarrow> Inl e
           | Inr bs \<Rightarrow> Inr (clamp_bullets bs)))"

definition validate_layout_hint :: "(string \<times> json) list \<Rightarrow> py_error + string option" where
  "validate_layout_hint kvs =
     (case map_of kvs ''layout_hint'' of
        None \<Rightarrow> Inr (Some ''Title and Content'')
      | Some v \<Rightarrow> validate_optional_str v)"

definition validate_notes :: "(string \<times> json) list \<Rightarrow> py_error + string option" where
  "validate_notes kvs =
     (case map_of kvs ''notes'' of
        None \<Rightarrow> Inr None
      | Some v \<Rightarrow> validate_optional_str v)"

fun validate_slide :: "json \<Rightarrow> py_error + slide" where
  "validate_slide (JObj kvs) =
     (case validate_title kvs of
        Inl e \<Rightarrow> Inl e
      | Inr t \<Rightarrow>
          (case validate_bullets kvs of
             Inl e \<Rightarrow> Inl e
           | Inr bs \<Rightarrow>
               (case validate_layout_hint kvs of
                  Inl e \<Rightarrow> Inl e
                | Inr h \<Rightarrow>
                    (case validate_notes kvs of
                       Inl e \<Rightarrow> Inl e
                     | Inr n \<Rightarrow>
                         Inr \<lparr>s_title = t, s_bullets = bs, s_layout_hint = h, s_notes = n\<rparr>))))"
| "validate_slide _ = Inl ValidationError"

subsection \<open>build\_presentation\<close>

text \<open>
  What the document library does during one build and the code cannot decide by itself:
  for the slide added at position \<open>i\<close>, the font size each title paragraph reports
  (in EMU, \<open>Inl\<close> when reading it raises), whether \<open>add_picture\<close> raises on a blob,
  whether reaching the notes slide raises, and whether \<open>save\<close> raises. The handler
  around the first \<open>slide.notes_slide\<close> evaluates the same expression again and assigns
  to the read-only attribute, so an exception there leaves the function.
\<close>

record build_env =
  env_title_fonts :: "nat \<Rightarrow> (py_error + int option) list"
  env_add_picture_fails :: "nat \<Rightarrow> bytes \<Rightarrow> bool"
  env_notes_slide_fails :: "nat \<Rightarrow> bool"
  env_save_fails :: bool

text \<open>
  \<open>random.Random(seed)\<close> and its \<open>choice\<close>, with the generator state made explicit.
\<close>

record 'g random_module =
  Random :: "int \<Rightarrow> 'g"
  rng_choice :: "'g \<Rightarrow> bytes list \<Rightarrow> bytes \<times> 'g"

text \<open>
  What the build leaves on a new slide: its layout, the title text (if the layout has a
  title), the title paragraphs' font sizes after the clamp, the paragraphs written to the
  body placeholder (if there is one), the value of \<open>chosen\<close> (if a draw was made), the
  picture and its bounds (if \<open>add_picture\<close> did not raise), and the notes text. The bytes
  that \<open>save\<close> writes are represented by the document itself.
\<close>

record out_slide =
  os_layout :: layout
  os_title :: "string option"
  os_title_fonts :: "(py_error + int option) list"
  os_body :: "string list option"
  os_chosen :: "bytes option"
  os_picture :: "(bytes \<times> int \<times> int \<times> int \<times> int) option"
  os_notes :: string

record document =
  doc_template :: presentation
  doc_new_slides :: "out_slide list"

fun clamp_title_fonts ::
  "(py_error + int option) list \<Rightarrow> (py_error + int option) list \<times> py_error option" where
  \<comment> \<open>The loop over the title's paragraphs: 609600 EMU are 48pt, 508000 EMU are Pt(40).
     It stops at the first paragraph whose font cannot be read.\<close>
  "clamp_title_fonts [] = ([], None)"
| "clamp_title_fonts (Inl e # ps) = (Inl e # ps, Some e)"
| "clamp_title_fonts (Inr sz # ps) =
     (let sz' = (case sz of
                   None \<Rightarrow> None
                 | Some n \<Rightarrow> if n \<noteq> 0 \<and> n > 609600 then Some 508000 else Some n);
          (ps', raised) = clamp_title_fonts ps
      in (Inr sz' # ps', raised))"

definition title_position :: "placeholder list \<Rightarrow> nat option" where
  \<comment> \<open>\<open>slide.shapes.title\<close>: the first placeholder with idx 0, if any.\<close>
  "title_position phs = map_option fst (find (\<lambda>(i, ph). ph_idx ph = 0) (enumerate 0 phs))"

definition body_placeholder :: "placeholder list \<Rightarrow> placeholder option" where
  "body_placeholder phs =
     map_option snd
       (find (\<lambda>(i, ph). ph_has_text_frame ph \<and> Some i \<noteq> title_position phs) (enumerate 0 phs))"

definition build_slide ::
  "'g random_module \<Rightarrow> build_env \<Rightarrow> presentation \<Rightarrow> bytes list \<Rightarrow> nat \<Rightarrow> slide \<Rightarrow> 'g
     \<Rightarrow> py_error + (out_slide \<times> 'g)" where
  "build_slide random env prs reusable_images i s rng =
     (case choose_layout prs (case s_layout_hint s of None \<Rightarrow> [] | Some h \<Rightarrow> h) of
        Inl e \<Rightarrow> Inl e
      | Inr layout \<Rightarrow>
          (let phs = l_placeholders layout;
               has_title = (title_position phs \<noteq> None);
               title = (if has_title then Some (s_title s) else None);
               fonts = (if has_title then fst (clamp_title_fonts (env_title_fonts env i)) else []);
               body = (case body_placeholder phs of
                         None \<Rightarrow> None
                       | Some ph \<Rightarrow> Some (s_bullets s));
               pics = filter (\<lambda>ph. ph_type ph = 18) phs;
               (chosen, rng') =
                  (if pics \<noteq> [] \<and> reusable_images \<noteq> []
                   then (let (c, g) = rng_choice random rng reusable_images in (Some c, g))
                   else (None, rng));
               picture =
                  (case chosen of
                     None \<Rightarrow> None
                   | Some c \<Rightarrow>
                       if env_add_picture_fails env i c then None
                       else (case pics of
                               [] \<Rightarrow> None
                             | ph # _ \<Rightarrow> Some (c, ph_left ph, ph_top ph, ph_width ph, ph_height ph)))
           in if env_notes_slide_fails env i then Inl LibraryError
              else Inr (\<lparr>os_layout = layout, os_title = title, os_title_fonts = fonts,
                          os_body = body, os_chosen = chosen, os_picture = picture,
                          os_notes = (case s_notes s of None \<Rightarrow> [] | Some n \<Rightarrow> n)\<rparr>, rng')))"

fun build_slides ::
  "'g random_module \<Rightarrow> build_env \<Rightarrow> presentation \<Rightarrow> bytes list \<Rightarrow> nat \<Rightarrow> slide list \<Rightarrow> 'g
     \<Rightarrow> py_error + out_slide list" where
  "build_slides random env prs reusable_images i [] rng = Inr []"
| "build_slides random env prs reusable_images i (s # ss) rng =
     (case build_slide random env prs reusable_images i s rng of
        Inl e \<Rightarrow> Inl e
      | Inr (out, rng') \<Rightarrow>
          (case build_slides random env prs reusable_images (Suc i) ss rng' of
             Inl e \<Rightarrow> Inl e
           | Inr outs \<Rightarrow> Inr (out # outs)))"

definition harvest :: "template_io \<Rightarrow> bytes list" where
  \<comment> \<open>The try block around \<open>collect_template_images\<close>: any exception leaves the list empty.\<close>
  "harvest template_io =
     (case collect_template_images template_io 8 of
        Inl e \<Rightarrow> []
      | Inr blobs \<Rightarrow> blobs)"

definition build_presentation ::
  "'g random_module \<Rightarrow> build_env \<Rightarrow> template_io \<Rightarrow> slide_deck \<Rightarrow> py_error + document" where
  "build_presentation random env template_io deck =
     (case Presentation template_io of
        Inl e \<Rightarrow> Inl e
      | Inr prs \<Rightarrow>
          (let reusable_images = harvest template_io;
               rng = Random random 42
           in case build_slides random env prs reusable_images 0 (d_slides deck) rng of
                Inl e \<Rightarrow> Inl e
              | Inr outs \<Rightarrow>
                  if env_save_fails env then Inl LibraryError
                  else Inr \<lparr>doc_template = prs, doc_new_slides = outs\<rparr>))"

subsection \<open>Notions the properties of the builder are stated with\<close>

definition blob_of :: "shape \<Rightarrow> bytes option" where
  "blob_of shp = (case shp of Picture b \<Rightarrow> b | _ \<Rightarrow> None)"

definition scan_order :: "presentation \<Rightarrow> bytes list" where
  \<comment> \<open>The readable picture blobs of the existing slides: slides in order, shapes in order.\<close>
  "scan_order prs = concat (map (List.map_filter blob_of) (prs_slides prs))"

definition first_of_length :: "bytes list \<Rightarrow> bytes \<Rightarrow> bool" where
  \<comment> \<open>\<open>x\<close> occurs in \<open>blobs\<close> and no blob before that occurrence has its length.\<close>
  "first_of_length blobs x =
     (\<exists>p s. blobs = p @ x # s \<and> (\<forall>y\<in>set p. length y \<noteq> length x))"

definition effective_name :: "layout list \<Rightarrow> nat \<Rightarrow> string" where
  \<comment> \<open>\<open>names[i]\<close>: the layout's name, or \<open>layout-i\<close> for a layout without one.\<close>
  "effective_name ls i =
     (if l_name (ls ! i) = [] then ''layout-'' @ show_nat i else l_name (ls ! i))"

definition hint_equals :: "layout list \<Rightarrow> string \<Rightarrow> nat \<Rightarrow> bool" where
  "hint_equals ls layout_hint i = (py_lower (effective_name ls i) = py_lower layout_hint)"

definition archetype_in :: "layout list \<Rightarrow> string \<Rightarrow> nat \<Rightarrow> bool" where
  "archetype_in ls want i = py_in (py_lower want) (py_lower (effective_name ls i))"

definition qualifying :: "presentation \<Rightarrow> slide \<Rightarrow> bool" where
  \<comment> \<open>The layout selected for the slide has a picture placeholder.\<close>
  "qualifying prs s =
     (case choose_layout prs (case s_layout_hint s of None \<Rightarrow> [] | Some h \<Rightarrow> h) of
        Inl e \<Rightarrow> False
      | Inr layout \<Rightarrow> (\<exists>ph\<in>set (l_placeholders layout). ph_type ph = 18))"

fun draw_sequence :: "'g random_module \<Rightarrow> bytes list \<Rightarrow> bool list \<Rightarrow> 'g \<Rightarrow> bytes option list" where
  \<comment> \<open>One draw for each qualifying slide, in slide order, none for the others.\<close>
  "draw_sequence random images [] rng = []"
| "draw_sequence random images (q # qs) rng =
     (if q \<and> images \<noteq> []
      then (let (c, rng') = rng_choice random rng images
            in Some c # draw_sequence random images qs rng')
      else None # draw_sequence random images qs rng)"

subsection \<open>A template, a deck and two library behaviours to run the builder on\<close>

definition ex_layouts :: "layout list" where
  "ex_layouts =
     [\<lparr>l_name = ''Title and Content'',
       l_placeholders =
         [\<lparr>ph_idx = 0, ph_has_text_frame = True, ph_type = 1,
           ph_left = 10, ph_top = 10, ph_width = 300, ph_height = 40\<rparr>,
          \<lparr>ph_idx = 1, ph_has_text_frame = True, ph_type = 2,
           ph_left = 10, ph_top = 60, ph_width = 300, ph_height = 200\<rparr>]\<rparr>,
      \<lparr>l_name = ''Blank'', l_placeholders = []\<rparr>,
      \<lparr>l_name = ''Picture with Caption'',
       l_placeholders =
         [\<lparr>ph_idx = 0, ph_has_text_frame = True, ph_type = 1,
           ph_left = 10, ph_top = 10, ph_width = 300, ph_height = 40\<rparr>,
          \<lparr>ph_idx = 1, ph_has_text_frame = False, ph_type = 18,
           ph_left = 20, ph_top = 60, ph_width = 120, ph_height = 90\<rparr>]\<rparr>]"

definition ex_template :: presentation where
  "ex_template =
     \<lparr>prs_slide_layouts = Inr ex_layouts,
      prs_slides =
        [[Picture (Some ''abc''), Picture (Some ''xyz''), OtherShape, Picture None],
         [Picture (Some ''hello''), Picture (Some []), Picture (Some ''de'')]]\<rparr>"

definition ex_template_unknown_shape :: presentation where
  "ex_template_unknown_shape =
     \<lparr>prs_slide_layouts = Inr ex_layouts,
      prs_slides = [[Picture (Some ''abc''), UnknownShape]]\<rparr>"

definition ex_custom_template :: presentation where
  "ex_custom_template =
     \<lparr>prs_slide_layouts =
        Inr [\<lparr>l_name = ''Custom1'', l_placeholders = []\<rparr>,
             \<lparr>l_name = ''Custom2'', l_placeholders = []\<rparr>],
      prs_slides = []\<rparr>"

definition ex_nameless_layouts :: "layout list" where
  \<comment> \<open>A layout without a name, then one named \<open>Foo\<close>.\<close>
  "ex_nameless_layouts =
     [\<lparr>l_name = [], l_placeholders = []\<rparr>, \<lparr>l_name = ''Foo'', l_placeholders = []\<rparr>]"

definition ex_nameless_template :: presentation where
  "ex_nameless_template = \<lparr>prs_slide_layouts = Inr ex_nameless_layouts, prs_slides = []\<rparr>"

definition ex_no_layouts :: presentation where
  "ex_no_layouts = \<lparr>prs_slide_layouts = Inr [], prs_slides = []\<rparr>"

definition ex_deck :: slide_deck where
  "ex_deck =
     \<lparr>d_slides =
        [\<lparr>s_title = ''Intro'', s_bullets = [''one'', ''two''],
          s_layout_hint = Some ''picture with caption'', s_notes = Some ''Speaker note text''\<rparr>,
         \<lparr>s_title = ''Plan'', s_bullets = [], s_layout_hint = None, s_notes = None\<rparr>,
         \<lparr>s_title = ''End'', s_bullets = [''bye''],
          s_layout_hint = Some ''Picture with Caption'', s_notes = None\<rparr>],
      d_tone = None, d_use_case = None, d_fill_missing_notes = False, d_llm = None\<rparr>"

definition ex_env :: build_env where
  "ex_env =
     \<lparr>env_title_fonts = (\<lambda>i. [Inr (Some 700000)]),
      env_add_picture_fails = (\<lambda>i b. False),
      env_notes_slide_fails = (\<lambda>i. False),
      env_save_fails = False\<rparr>"

definition ex_env_cosmetic_failures :: build_env where
  "ex_env_cosmetic_failures =
     \<lparr>env_title_fonts = (\<lambda>i. [Inl LibraryError]),
      env_add_picture_fails = (\<lambda>i b. True),
      env_notes_slide_fails = (\<lambda>i. False),
      env_save_fails = False\<rparr>"

definition ex_env_notes_fail :: build_env where
  "ex_env_notes_fail =
     \<lparr>env_title_fonts = (\<lambda>i. [Inr None]),
      env_add_picture_fails = (\<lambda>i b. False),
      env_notes_slide_fails = (\<lambda>i. True),
      env_save_fails = False\<rparr>"

definition ex_random :: "nat random_module" where
  \<comment> \<open>A counter standing in for the generator of \<open>random.Random\<close>.\<close>
  "ex_random =
     \<lparr>Random = (\<lambda>seed. nat \<bar>seed\<bar>),
      rng_choice = (\<lambda>g xs. (xs ! (g mod length xs), Suc g))\<rparr>"

definition ex_raw_slide :: json where
  "ex_raw_slide =
     JObj [(''title'', JStr ''Twelve''),
           (''bullets'',
            JArr (map JStr [''b1'', ''b2'', ''b3'', ''b4'', ''b5'', ''b6'',
                            ''b7'', ''b8'', ''b9'', ''b10'', ''b11'', ''b12'']))]"

section \<open>json.loads\<close>

text \<open>
  The decoder of the standard library, as its scanner reads a text: whitespace is blank,
  tab, line feed and carriage return; every syntax error is a \<open>JSONDecodeError\<close>. The
  scanner recurses on nested arrays and objects; \<open>scan_once\<close> takes the number of calls
  it may still make and \<open>json_loads\<close> gives it more than the text can use, so that
  \<open>RecursionError\<close> is never its result (the interpreter's own limits, on the nesting
  depth and on the digits of an integer, are not part of the model).
\<close>

abbreviation (input) dquote :: char where
  "dquote \<equiv> CHR 0x22"

abbreviation (input) backslash :: char where
  "backslash \<equiv> CHR 0x5C"

definition json_ws :: "char \<Rightarrow> bool" where
  "json_ws c = (c = CHR '' '' \<or> c = CHR 0x09 \<or> c = CHR 0x0A \<or> c = CHR 0x0D)"

definition skip_ws :: "string \<Rightarrow> string" where
  "skip_ws s = dropWhile json_ws s"

definition is_digit :: "char \<Rightarrow> bool" where
  "is_digit c = (48 \<le> (of_char c :: nat) \<and> (of_char c :: nat) \<le> 57)"

definition hex_digit :: "char \<Rightarrow> nat option" where
  "hex_digit c =
     (let n = (of_char c :: nat)
      in if 48 \<le> n \<and> n \<le> 57 then Some (n - 48)
         else if 97 \<le> n \<and> n \<le> 102 then Some (n - 87)
         else if 65 \<le> n \<and> n \<le> 70 then Some (n - 55)
         else None)"

definition hex4 :: "char \<Rightarrow> char \<Rightarrow> char \<Rightarrow> char \<Rightarrow> nat option" where
  "hex4 a b c d =
     (case (hex_digit a, hex_digit b, hex_digit c, hex_digit d) of
        (Some x, Some y, Some z, Some w) \<Rightarrow> Some (((x * 16 + y) * 16 + z) * 16 + w)
      | _ \<Rightarrow> None)"

definition simple_escape :: "char \<Rightarrow> char option" where
  "simple_escape c =
     (if c = dquote \<or> c = backslash \<or> c = CHR ''/'' then Some c
      else if c = CHR ''b'' then Some (CHR 0x08)
      else if c = CHR ''f'' then Some (CHR 0x0C)
      else if c = CHR ''n'' then Some (CHR 0x0A)
      else if c = CHR ''r'' then Some (CHR 0x0D)
      else if c = CHR ''t'' then Some (CHR 0x09)
      else None)"

fun scanstring :: "string \<Rightarrow> string \<Rightarrow> py_error + (string \<times> string)" where
  \<comment> \<open>The text after the opening quote and the characters decoded so far; returns the
     decoded string and the text after the closing quote.\<close>
  "scanstring [] acc = Inl JSONDecodeError"
| "scanstring (c # cs) acc =
     (if c = dquote then Inr (acc, cs)
      else if c = backslash then
        (case cs of
           [] \<Rightarrow> Inl JSONDecodeError
         | e # rest \<Rightarrow>
             if e = CHR ''u'' then
               (case rest of
                  h1 # h2 # h3 # h4 # rest' \<Rightarrow>
                    (case hex4 h1 h2 h3 h4 of
                       None \<Rightarrow> Inl JSONDecodeError
                     | Some n \<Rightarrow>
                         if n < 256 then scanstring rest' (acc @ [char_of n])
                         else Inl OutsideModel)
                | _ \<Rightarrow> Inl JSONDecodeError)
             else
               (case simple_escape e of
                  None \<Rightarrow> Inl JSONDecodeError
                | Some x \<Rightarrow> scanstring rest (acc @ [x])))
      else if (of_char c :: nat) \<le> 31 then Inl JSONDecodeError
      else scanstring cs (acc @ [c]))"

definition read_escape :: "string \<Rightarrow> py_error + (char \<times> string)" where
  \<comment> \<open>What \<open>scanstring\<close> does after a backslash, on its own: the character the escape
     stands for and the text after the escape.\<close>
  "read_escape cs =
     (case cs of
        [] \<Rightarrow> Inl JSONDecodeError
      | e # rest \<Rightarrow>
          if e = CHR ''u'' then
            (case rest of
               h1 # h2 # h3 # h4 # rest' \<Rightarrow>
                 (case hex4 h1 h2 h3 h4 of
                    None \<Rightarrow> Inl JSONDecodeError
                  | Some n \<Rightarrow>
                      if n < 256 then Inr (char_of n, rest')
                      else Inl OutsideModel)
             | _ \<Rightarrow> Inl JSONDecodeError)
          else
            (case simple_escape e of
               None \<Rightarrow> Inl JSONDecodeError
             | Some x \<Rightarrow> Inr (x, rest)))"

definition digits_value :: "string \<Rightarrow> int" where
  "digits_value ds = foldl (\<lambda>v c. 10 * v + (int (of_char c) - 48)) 0 ds"

definition sign_part :: "string \<Rightarrow> string \<times> string" where
  "sign_part s =
     (case s of
        [] \<Rightarrow> ([], [])
      | c # r \<Rightarrow> if c = CHR ''-'' then ([c], r) else ([], s))"

definition int_part :: "string \<Rightarrow> (string \<times> string) option" where
  \<comment> \<open>\<open>0\<close>, or a digit from 1 to 9 and every digit after it\<close>
  "int_part s =
     (case s of
        [] \<Rightarrow> None
      | c # r \<Rightarrow>
          if c = CHR ''0'' then Some ([c], r)
          else if is_digit c then Some (c # takeWhile is_digit r, dropWhile is_digit r)
          else None)"

definition frac_part :: "string \<Rightarrow> string \<times> string" where
  \<comment> \<open>a point and its digits, when a digit follows the point\<close>
  "frac_part s =
     (case s of
        p # d # r \<Rightarrow>
          if p = CHR ''.'' \<and> is_digit d
          then (p # d # takeWhile is_digit r, dropWhile is_digit r)
          else ([], s)
      | _ \<Rightarrow> ([], s))"

definition exp_part :: "string \<Rightarrow> string \<times> string" where
  \<comment> \<open>\<open>e\<close> or \<open>E\<close>, a sign if there is one, and digits; nothing when no digit follows\<close>
  "exp_part s =
     (case s of
        [] \<Rightarrow> ([], s)
      | e # r \<Rightarrow>
          if e = CHR ''e'' \<or> e = CHR ''E'' then
            (let (sg, r') = (case r of
                               [] \<Rightarrow> ([], r)
                             | x # r'' \<Rightarrow>
                                 if x = CHR ''-'' \<or> x = CHR ''+'' then ([x], r'') else ([], r))
             in if takeWhile is_digit r' \<noteq> []
                then (e # sg @ takeWhile is_digit r', dropWhile is_digit r')
                else ([], s))
          else ([], s))"

definition match_number :: "string \<Rightarrow> (json \<times> string) option" where
  \<comment> \<open>An integer lexeme is read by \<open>int\<close>, any other keeps its text.\<close>
  "match_number s =
     (let (sign, s1) = sign_part s
      in case int_part s1 of
           None \<Rightarrow> None
         | Some (ip, s2) \<Rightarrow>
             (let (fp, s3) = frac_part s2;
                  (ep, s4) = exp_part s3
              in if fp = [] \<and> ep = []
                 then Some (JInt (if sign = [] then digits_value ip else - digits_value ip), s4)
                 else Some (JFloat (sign @ ip @ fp @ ep), s4)))"

fun dict_set :: "string \<Rightarrow> json \<Rightarrow> (string \<times> json) list \<Rightarrow> (string \<times> json) list" where
  \<comment> \<open>\<open>d[k] = v\<close>: a key already present keeps its place.\<close>
  "dict_set k v [] = [(k, v)]"
| "dict_set k v ((k', v') # kvs) =
     (if k' = k then (k, v) # kvs else (k', v') # dict_set k v kvs)"

fun scan_once :: "nat \<Rightarrow> string \<Rightarrow> py_error + (json \<times> string)"
  and parse_object :: "nat \<Rightarrow> string \<Rightarrow> (string \<times> json) list \<Rightarrow> py_error + (json \<times> string)"
  and parse_array :: "nat \<Rightarrow> string \<Rightarrow> json list \<Rightarrow> py_error + (json \<times> string)" where
  "scan_once 0 s = Inl RecursionError"
| "scan_once (Suc n) s =
     (case s of
        [] \<Rightarrow> Inl JSONDecodeError
      | c # cs \<Rightarrow>
          if c = dquote then
            (case scanstring cs [] of
               Inl e \<Rightarrow> Inl e
             | Inr (str, rest) \<Rightarrow> Inr (JStr str, rest))
          else if c = CHR ''{'' then
            (case skip_ws cs of
               [] \<Rightarrow> Inl JSONDecodeError
             | x # rest \<Rightarrow>
                 if x = CHR ''}'' then Inr (JObj [], rest)
                 else parse_object n (x # rest) [])
          else if c = CHR ''['' then
            (case skip_ws cs of
               [] \<Rightarrow> Inl JSONDecodeError
             | x # rest \<Rightarrow>
                 if x = CHR '']'' then Inr (JArr [], rest)
                 else parse_array n (x # rest) [])
          else if startswith s ''null'' then Inr (JNull, drop 4 s)
          else if startswith s ''true'' then Inr (JBool True, drop 4 s)
          else if startswith s ''false'' then Inr (JBool False, drop 5 s)
          else if startswith s ''NaN'' then Inr (JFloat ''NaN'', drop 3 s)
          else if startswith s ''Infinity'' then Inr (JFloat ''Infinity'', drop 8 s)
          else if startswith s ''-Infinity'' then Inr (JFloat ''-Infinity'', drop 9 s)
          else (case match_number s of
                  None \<Rightarrow> Inl JSONDecodeError
                | Some r \<Rightarrow> Inr r))"
| "parse_object 0 s pairs = Inl RecursionError"
| "parse_object (Suc n) s pairs =
     (case s of
        [] \<Rightarrow> Inl JSONDecodeError
      | q # cs \<Rightarrow>
          if q \<noteq> dquote then Inl JSONDecodeError
          else
            (case scanstring cs [] of
               Inl e \<Rightarrow> Inl e
             | Inr (key, r1) \<Rightarrow>
                 (case skip_ws r1 of
                    [] \<Rightarrow> Inl JSONDecodeError
                  | colon # r2 \<Rightarrow>
                      if colon \<noteq> CHR '':'' then Inl JSONDecodeError
                      else
                        (case scan_once n (skip_ws r2) of
                           Inl e \<Rightarrow> Inl e
                         | Inr (val, r3) \<Rightarrow>
                             (case skip_ws r3 of
                                [] \<Rightarrow> Inl JSONDecodeError
                              | x # r4 \<Rightarrow>
                                  if x = CHR ''}'' then Inr (JObj (dict_set key val pairs), r4)
                                  else if x = CHR '','' then
                                    parse_object n (skip_ws r4) (dict_set key val pairs)
                                  else Inl JSONDecodeError)))))"
| "parse_array 0 s vals = Inl RecursionError"
| "parse_array (Suc n) s vals =
     (case scan_once n s of
        Inl e \<Rightarrow> Inl e
      | Inr (val, r1) \<Rightarrow>
          (case skip_ws r1 of
             [] \<Rightarrow> Inl JSONDecodeError
           | x # r2 \<Rightarrow>
               if x = CHR '']'' then Inr (JArr (vals @ [val]), r2)
               else if x = CHR '','' then parse_array n (skip_ws r2) (vals @ [val])
               else Inl JSONDecodeError))"

definition json_loads :: "string \<Rightarrow> py_error + json" where
  "json_loads s =
     (case scan_once (2 * length s + 2) (skip_ws s) of
        Inl e \<Rightarrow> Inl e
      | Inr (obj, rest) \<Rightarrow> if skip_ws rest = [] then Inr obj else Inl JSONDecodeError)"

section \<open>The provider adapter (llm\_providers.py)\<close>

subsection \<open>re.search for the two patterns of the adapter\<close>

text \<open>
  The patterns use literal characters, \<open>.\<close> under \<open>re.S\<close>, \<open>\s\<close>, a greedy and a lazy
  star on one character, and one group. A pattern is the list of its items, the group
  marked by where it opens and closes. \<open>match_here\<close> is the backtracking matcher of
  \<open>re\<close>: a greedy star tries the longer match first, a lazy one the shorter; it returns
  the text of group 1. \<open>re_search\<close> tries every start from the left.
\<close>

datatype atom = Lit char | Dot | Space

datatype item = One atom | Greedy atom | Lazy atom | GroupStart | GroupEnd

fun atom_matches :: "bool \<Rightarrow> atom \<Rightarrow> char \<Rightarrow> bool" where
  "atom_matches ignorecase (Lit x) c =
     (if ignorecase then py_lower_char c = py_lower_char x else c = x)"
| "atom_matches ignorecase Dot c = True"
| "atom_matches ignorecase Space c = py_isspace c"

fun match_here ::
  "bool \<Rightarrow> item list \<Rightarrow> string \<Rightarrow> string \<Rightarrow> string option \<Rightarrow> string option option" where
  \<comment> \<open>The flag \<open>re.I\<close>, the items still to match, the text still to read, the text as it
     was where the group opened, and the group once it is closed.\<close>
  "match_here ic [] s gs g = Some g"
| "match_here ic (GroupStart # r) s gs g = match_here ic r s s g"
| "match_here ic (GroupEnd # r) s gs g =
     match_here ic r s gs (Some (take (length gs - length s) gs))"
| "match_here ic (One a # r) [] gs g = None"
| "match_here ic (One a # r) (c # cs) gs g =
     (if atom_matches ic a c then match_here ic r cs gs g else None)"
| "match_here ic (Greedy a # r) [] gs g = match_here ic r [] gs g"
| "match_here ic (Greedy a # r) (c # cs) gs g =
     (if atom_matches ic a c
      then (case match_here ic (Greedy a # r) cs gs g of
              Some m \<Rightarrow> Some m
            | None \<Rightarrow> match_here ic r (c # cs) gs g)
      else match_here ic r (c # cs) gs g)"
| "match_here ic (Lazy a # r) [] gs g = match_here ic r [] gs g"
| "match_here ic (Lazy a # r) (c # cs) gs g =
     (case match_here ic r (c # cs) gs g of
        Some m \<Rightarrow> Some m
      | None \<Rightarrow>
          if atom_matches ic a c then match_here ic (Lazy a # r) cs gs g else None)"

fun re_search :: "bool \<Rightarrow> item list \<Rightarrow> string \<Rightarrow> string option option" where
  "re_search ic pat [] = match_here ic pat [] [] None"
| "re_search ic pat (c # cs) =
     (case match_here ic pat (c # cs) [] None of
        Some m \<Rightarrow> Some m
      | None \<Rightarrow> re_search ic pat cs)"

definition fence_pattern :: "item list" where
  \<comment> \<open>\<open>```json\s*(\{.*?\})\s*```\<close>\<close>
  "fence_pattern =
     map (One \<circ> Lit) ''```json'' @
     [Greedy Space, GroupStart, One (Lit CHR ''{''), Lazy Dot, One (Lit CHR ''}''), GroupEnd,
      Greedy Space] @
     map (One \<circ> Lit) ''```''"

definition brace_pattern :: "item list" where
  \<comment> \<open>\<open>(\{.*\})\<close>\<close>
  "brace_pattern =
     [GroupStart, One (Lit CHR ''{''), Greedy Dot, One (Lit CHR ''}''), GroupEnd]"

subsection \<open>\_extract\_json\_maybe\<close>

definition loads_group :: "string option \<Rightarrow> py_error + json" where
  \<comment> \<open>\<open>json.loads(m.group(1))\<close>; a group that took no part in the match is \<open>None\<close>.\<close>
  "loads_group g = (case g of None \<Rightarrow> Inl TypeError | Some s \<Rightarrow> json_loads s)"

definition extract_json_maybe :: "string \<Rightarrow> py_error + json" where
  "extract_json_maybe txt =
     (if txt = [] then Inl (ValueError ''Empty response from model'')
      else
        (case re_search True fence_pattern txt of
           Some g \<Rightarrow> loads_group g
         | None \<Rightarrow>
             (case re_search False brace_pattern txt of
                Some g \<Rightarrow> loads_group g
              | None \<Rightarrow> json_loads txt)))"

text \<open>
  The extraction as the specification words it: the three candidates in order, the first
  that parses wins, and a parse error when none does.
\<close>

definition candidates :: "string \<Rightarrow> string list" where
  "candidates txt =
     (case re_search True fence_pattern txt of Some (Some g) \<Rightarrow> [g] | _ \<Rightarrow> []) @
     (case re_search False brace_pattern txt of Some (Some g) \<Rightarrow> [g] | _ \<Rightarrow> []) @
     [txt]"

fun first_success :: "string list \<Rightarrow> py_error + json" where
  "first_success [] = Inl JSONDecodeError"
| "first_success (c # cs) =
     (case json_loads c of
        Inr v \<Rightarrow> Inr v
      | Inl e \<Rightarrow> first_success cs)"

definition extract_first_success :: "string \<Rightarrow> py_error + json" where
  "extract_first_success txt =
     (if txt = [] then Inl (ValueError ''Empty response from model'')
      else first_success (candidates txt))"

definition ex_prose :: string where
  \<open>ex_prose = ''Here's the answer: {"a": {"slides": []}} done''\<close>

definition ex_fenced :: string where
  \<open>ex_fenced = ''Sure {see below}: ```JSON {"slides":[]} ``` and {more}''\<close>

definition ex_fence_inside :: string where
  \<open>ex_fence_inside = ''{"x": "```json {oops} ```"}''\<close>

subsection \<open>The HTTP transport and the prompts\<close>

text \<open>
  What the adapter cannot decide by itself: the value of \<open>OPENAI_BASE\<close> in the process
  environment, the outcome of each POST (numbered from 0 in the order they are issued:
  an exception of the transport, or a response), and the jitter that
  \<open>wait_exponential_jitter\<close> draws before each sleep. The body of a response is given
  as text; \<open>resp_text_readable\<close> is false when reading \<open>resp.text\<close> raises.
\<close>

record http_env =
  net_openai_base :: "string option"
  net_post :: "nat \<Rightarrow> http_request \<Rightarrow> py_error + http_response"
  net_jitter :: "nat \<Rightarrow> rat"

record run_state =
  rs_calls :: nat
  rs_sleeps :: "rat list"
  rs_attempts :: nat

record payload =
  p_system :: string
  p_user :: string

definition SYSTEM_PROMPT :: string where
  \<comment> \<open>The three en dashes of the source are written as hyphens here.\<close>
  "SYSTEM_PROMPT =
     ''You convert long text or Markdown into a concise, well-structured slide deck. '' @
     ''You MUST answer as strict JSON with keys: slides:[{title, bullets[], layout_hint, notes}], tone, use_case. '' @
     ''Pick a reasonable number of slides (5-20) depending on length and guidance. '' @
     ''Each slide: short title, 3-6 bullets max. Always include speaker notes (1-3 short paragraphs).''"

definition USER_PROMPT_TMPL :: "string \<Rightarrow> string \<Rightarrow> string" where
  \<comment> \<open>\<open>USER_PROMPT_TMPL.format(raw_text=..., guidance=...)\<close>\<close>
  "USER_PROMPT_TMPL raw_text guidance =
     ''Input text (can be Markdown):'' @ [CHR 0x0A, CHR 0x0A] @ raw_text @ [CHR 0x0A, CHR 0x0A] @
     ''Guidance/tone/use-case (optional): '' @ guidance @ [CHR 0x0A, CHR 0x0A] @
     ''Return STRICT JSON only, no prose.''"

definition endswith :: "string \<Rightarrow> string \<Rightarrow> bool" where
  "endswith s ending = startswith (rev s) (rev ending)"

definition rstrip_slash :: "string \<Rightarrow> string" where
  \<comment> \<open>\<open>s.rstrip("/")\<close>\<close>
  "rstrip_slash s = rev (dropWhile (\<lambda>c. c = CHR ''/'') (rev s))"

definition http_post ::
  "http_env \<Rightarrow> http_request \<Rightarrow> run_state \<Rightarrow> (py_error + http_response) \<times> run_state" where
  "http_post env req st = (net_post env (rs_calls st) req, st\<lparr>rs_calls := Suc (rs_calls st)\<rparr>)"

subsection \<open>\_raise\_for\_provider\_error\<close>

definition raise_for_provider_error :: "http_response \<Rightarrow> string \<Rightarrow> py_error" where
  "raise_for_provider_error resp provider_label =
     (let body = (if resp_text_readable resp then take 500 (resp_content resp)
                  else ''<no body>'')
      in HTTPStatusError
           (provider_label @ '' HTTP '' @ show_nat (resp_status_code resp) @ '': '' @ body)
           (resp_request resp) resp)"

subsection \<open>Reading the decoded response\<close>

definition then_do :: "py_error + 'a \<Rightarrow> ('a \<Rightarrow> py_error + 'b) \<Rightarrow> py_error + 'b" where
  "then_do r f = (case r of Inl e \<Rightarrow> Inl e | Inr v \<Rightarrow> f v)"

definition float_is_zero :: "string \<Rightarrow> bool" where
  \<comment> \<open>Whether \<open>float\<close> of the lexeme is 0.0: the decimal value is at most half the
     smallest subnormal double.\<close>
  "float_is_zero lexeme =
     (if lexeme = ''NaN'' \<or> lexeme = ''Infinity'' \<or> lexeme = ''-Infinity'' then False
      else
        (let is_e = (\<lambda>c. c = CHR ''e'' \<or> c = CHR ''E'');
             m = takeWhile (\<lambda>c. \<not> is_e c) lexeme;
             x = drop 1 (dropWhile (\<lambda>c. \<not> is_e c) lexeme);
             digs = filter is_digit m;
             fracn = length (drop 1 (dropWhile (\<lambda>c. c \<noteq> CHR ''.'') m));
             ex = (case x of
                     [] \<Rightarrow> 0
                   | c # r \<Rightarrow>
                       if c = CHR ''-'' then - digits_value r
                       else if c = CHR ''+'' then digits_value r
                       else digits_value x);
             k = ex - int fracn;
             v = (if k \<ge> 0 then of_int (digits_value digs) * 10 ^ nat k
                  else of_int (digits_value digs) / 10 ^ nat (- k) :: rat)
         in v \<le> 1 / 2 ^ 1075))"

fun truthy :: "json \<Rightarrow> bool" where
  "truthy JNull = False"
| "truthy (JBool b) = b"
| "truthy (JInt n) = (n \<noteq> 0)"
| "truthy (JFloat lexeme) = (\<not> float_is_zero lexeme)"
| "truthy (JStr s) = (s \<noteq> [])"
| "truthy (JArr xs) = (xs \<noteq> [])"
| "truthy (JObj kvs) = (kvs \<noteq> [])"

fun getitem_key :: "string \<Rightarrow> json \<Rightarrow> py_error + json" where
  \<comment> \<open>\<open>v[key]\<close> for a string key\<close>
  "getitem_key key (JObj kvs) = (case map_of kvs key of None \<Rightarrow> Inl KeyError | Some v \<Rightarrow> Inr v)"
| "getitem_key key _ = Inl TypeError"

fun getitem_0 :: "json \<Rightarrow> py_error + json" where
  \<comment> \<open>\<open>v[0]\<close>\<close>
  "getitem_0 (JArr []) = Inl IndexError"
| "getitem_0 (JArr (x # xs)) = Inr x"
| "getitem_0 (JStr []) = Inl IndexError"
| "getitem_0 (JStr (c # cs)) = Inr (JStr [c])"
| "getitem_0 (JObj kvs) = Inl KeyError"
| "getitem_0 _ = Inl TypeError"

fun dict_get :: "string \<Rightarrow> json \<Rightarrow> json \<Rightarrow> py_error + json" where
  \<comment> \<open>\<open>v.get(key, default)\<close>: only a dict has the method\<close>
  "dict_get key fallback (JObj kvs) =
     (case map_of kvs key of None \<Rightarrow> Inr fallback | Some v \<Rightarrow> Inr v)"
| "dict_get key fallback _ = Inl AttributeError"

fun py_iter :: "json \<Rightarrow> py_error + json list" where
  \<comment> \<open>The items a \<open>for\<close> loop over the value sees\<close>
  "py_iter (JArr xs) = Inr xs"
| "py_iter (JObj kvs) = Inr (map (JStr \<circ> fst) kvs)"
| "py_iter (JStr s) = Inr (map (\<lambda>c. JStr [c]) s)"
| "py_iter _ = Inl TypeError"

fun block_texts :: "json list \<Rightarrow> py_error + json list" where
  \<comment> \<open>\<open>[blk.get("text", "") for blk in ...]\<close>\<close>
  "block_texts [] = Inr []"
| "block_texts (blk # blks) =
     then_do (dict_get ''text'' (JStr []) blk)
       (\<lambda>t. then_do (block_texts blks) (\<lambda>ts. Inr (t # ts)))"

fun join_strs :: "json list \<Rightarrow> py_error + string" where
  \<comment> \<open>\<open>"".join(...)\<close>: every item has to be a string\<close>
  "join_strs [] = Inr []"
| "join_strs (JStr s # vs) = then_do (join_strs vs) (\<lambda>r. Inr (s @ r))"
| "join_strs (_ # vs) = Inl TypeError"

fun extract_json_dyn :: "json \<Rightarrow> py_error + json" where
  \<comment> \<open>\<open>_extract_json_maybe\<close> on whatever value the envelope held: a falsy value is an
     empty response, and \<open>re.search\<close> takes a string only.\<close>
  "extract_json_dyn (JStr s) = extract_json_maybe s"
| "extract_json_dyn v =
     (if truthy v then Inl TypeError else Inl (ValueError ''Empty response from model''))"

subsection \<open>The three call strategies\<close>

definition openai_request :: "http_env \<Rightarrow> string \<Rightarrow> string \<Rightarrow> payload \<Rightarrow> http_request" where
  "openai_request env model api_key p =
     (let base = (case net_openai_base env of
                    None \<Rightarrow> ''https://api.openai.com/v1''
                  | Some b \<Rightarrow> b);
          url = (if endswith base ''/chat/completions'' then base
                 else rstrip_slash base @ ''/chat/completions'')
      in \<lparr>req_url = url,
          req_headers = [(''Authorization'', ''Bearer '' @ api_key)],
          req_json =
            JObj [(''model'', JStr model),
                  (''temperature'', JFloat ''0.3''),
                  (''response_format'', JObj [(''type'', JStr ''json_object'')]),
                  (''messages'',
                   JArr [JObj [(''role'', JStr ''system''), (''content'', JStr (p_system p))],
                         JObj [(''role'', JStr ''user''), (''content'', JStr (p_user p))]])]\<rparr>)"

definition openai_outline :: "http_response \<Rightarrow> py_error + json" where
  "openai_outline r =
     then_do (json_loads (resp_content r))
       (\<lambda>j. then_do (getitem_key ''choices'' j)
         (\<lambda>choices. then_do (getitem_0 choices)
           (\<lambda>choice. then_do (getitem_key ''message'' choice)
             (\<lambda>message. then_do (getitem_key ''content'' message) extract_json_dyn))))"

definition call_openai ::
  "http_env \<Rightarrow> string \<Rightarrow> string \<Rightarrow> payload \<Rightarrow> run_state \<Rightarrow> (py_error + json) \<times> run_state" where
  "call_openai env model api_key p st =
     (let (posted, st') = http_post env (openai_request env model api_key p) st
      in (case posted of
            Inl e \<Rightarrow> Inl e
          | Inr r \<Rightarrow>
              if resp_status_code r \<ge> 400
              then Inl (raise_for_provider_error r ''OpenAI-compatible'')
              else openai_outline r,
          st'))"

definition anthropic_request :: "string \<Rightarrow> string \<Rightarrow> payload \<Rightarrow> http_request" where
  "anthropic_request model api_key p =
     \<lparr>req_url = ''https://api.anthropic.com/v1/messages'',
      req_headers = [(''x-api-key'', api_key), (''anthropic-version'', ''2023-06-01'')],
      req_json =
        JObj [(''model'', JStr model),
              (''max_tokens'', JInt 4096),
              (''temperature'', JFloat ''0.3''),
              (''system'', JStr (p_system p)),
              (''messages'',
               JArr [JObj [(''role'', JStr ''user''), (''content'', JStr (p_user p))]])]\<rparr>"

definition anthropic_outline :: "http_response \<Rightarrow> py_error + json" where
  "anthropic_outline r =
     then_do (json_loads (resp_content r))
       (\<lambda>j. then_do (dict_get ''content'' (JArr []) j)
         (\<lambda>blocks. then_do (py_iter blocks)
           (\<lambda>blks. then_do (block_texts blks)
             (\<lambda>texts. then_do (join_strs texts) extract_json_maybe))))"

definition call_anthropic ::
  "http_env \<Rightarrow> string \<Rightarrow> string \<Rightarrow> payload \<Rightarrow> run_state \<Rightarrow> (py_error + json) \<times> run_state" where
  "call_anthropic env model api_key p st =
     (let (posted, st') = http_post env (anthropic_request model api_key p) st
      in (case posted of
            Inl e \<Rightarrow> Inl e
          | Inr r \<Rightarrow>
              if resp_status_code r \<ge> 400
              then Inl (raise_for_provider_error r ''Anthropic'')
              else anthropic_outline r,
          st'))"

definition gemini_request :: "string \<Rightarrow> string \<Rightarrow> payload \<Rightarrow> http_request" where
  "gemini_request model api_key p =
     \<lparr>req_url = ''https://generativelanguage.googleapis.com/v1beta/models/'' @ model @
                 '':generateContent?key='' @ api_key,
      req_headers = [],
      req_json =
        JObj [(''systemInstruction'', JObj [(''parts'', JArr [JObj [(''text'', JStr (p_system p))]])]),
              (''contents'',
               JArr [JObj [(''role'', JStr ''user''),
                           (''parts'', JArr [JObj [(''text'', JStr (p_user p))]])]]),
              (''generationConfig'',
               JObj [(''temperature'', JFloat ''0.3''),
                     (''response_mime_type'', JStr ''application/json''),
                     (''maxOutputTokens'', JInt 4096)])]\<rparr>"

definition gemini_outline :: "http_response \<Rightarrow> py_error + json" where
  \<comment> \<open>The two \<open>ValueError\<close> messages end with the decoded response in the source.\<close>
  "gemini_outline r =
     then_do (json_loads (resp_content r))
       (\<lambda>j. then_do (dict_get ''candidates'' JNull j)
         (\<lambda>candidates.
            if \<not> truthy candidates then Inl (ValueError ''Gemini returned no candidates'')
            else
              then_do (getitem_0 candidates)
                (\<lambda>cand. then_do (dict_get ''content'' (JObj []) cand)
                  (\<lambda>content. then_do (dict_get ''parts'' (JArr []) content)
                    (\<lambda>parts.
                       if \<not> truthy parts then Inl (ValueError ''Gemini returned empty parts'')
                       else
                         then_do (getitem_0 parts)
                           (\<lambda>part. then_do (dict_get ''text'' (JStr []) part)
                                     extract_json_dyn))))))"

definition call_gemini ::
  "http_env \<Rightarrow> string \<Rightarrow> string \<Rightarrow> payload \<Rightarrow> run_state \<Rightarrow> (py_error + json) \<times> run_state" where
  "call_gemini env model api_key p st =
     (let (posted, st') = http_post env (gemini_request model api_key p) st
      in (case posted of
            Inl e \<Rightarrow> Inl e
          | Inr r \<Rightarrow>
              if resp_status_code r \<ge> 400
              then Inl (raise_for_provider_error r ''Gemini'')
              else gemini_outline r,
          st'))"

subsection \<open>generate\_slide\_outline and its retry decorator\<close>

text \<open>
  \<open>@retry(stop=stop_after_attempt(3), wait=wait_exponential_jitter(initial=1, max=8))\<close>
  of tenacity, with the defaults of the library for what the decorator leaves out: every
  exception is retried, and when the stop condition holds after a failed attempt the
  loop raises \<open>RetryError\<close> around that attempt (\<open>reraise\<close> is off).
\<close>

definition wait_exponential_jitter :: "rat \<Rightarrow> rat \<Rightarrow> nat \<Rightarrow> rat \<Rightarrow> rat" where
  "wait_exponential_jitter initial maximum attempt_number jitter =
     max 0 (min (initial * 2 ^ (attempt_number - 1) + jitter) maximum)"

function retrying ::
  "nat \<Rightarrow> (nat \<Rightarrow> rat) \<Rightarrow> (run_state \<Rightarrow> (py_error + 'a) \<times> run_state) \<Rightarrow> nat \<Rightarrow> run_state
     \<Rightarrow> (py_error + 'a) \<times> run_state" where
  "retrying stop wait fn attempt_number st =
     (case fn (st\<lparr>rs_attempts := Suc (rs_attempts st)\<rparr>) of
        (Inr v, st') \<Rightarrow> (Inr v, st')
      | (Inl e, st') \<Rightarrow>
          if attempt_number \<ge> stop then (Inl (RetryError e), st')
          else retrying stop wait fn (Suc attempt_number)
                 (st'\<lparr>rs_sleeps := rs_sleeps st' @ [wait attempt_number]\<rparr>))"
  by pat_completeness auto
termination
  by (relation "measure (\<lambda>(stop, wait, fn, attempt_number, st). stop - attempt_number)") auto

declare retrying.simps [simp del]

definition outline_attempt ::
  "http_env \<Rightarrow> string \<Rightarrow> string \<Rightarrow> string \<Rightarrow> string \<Rightarrow> string \<Rightarrow> run_state
     \<Rightarrow> (py_error + json) \<times> run_state" where
  \<comment> \<open>The body of \<open>generate_slide_outline\<close>: one attempt.\<close>
  "outline_attempt env provider model api_key raw_text guidance st =
     (let p = \<lparr>p_system = SYSTEM_PROMPT,
               p_user = USER_PROMPT_TMPL (take 60000 raw_text) (take 200 guidance)\<rparr>;
          provider' = py_lower (py_strip (py_or provider []))
      in if provider' = ''openai''
         then call_openai env (py_or model ''gpt-4o-mini'') api_key p st
         else if provider' = ''anthropic''
         then call_anthropic env (py_or model ''claude-3-5-sonnet-latest'') api_key p st
         else if provider' = ''gemini''
         then call_gemini env (py_or model ''gemini-1.5-pro'') api_key p st
         else (Inl (ValueError ''Unsupported provider. Use openai|anthropic|gemini.''), st))"

definition generate_slide_outline ::
  "http_env \<Rightarrow> string \<Rightarrow> string \<Rightarrow> string \<Rightarrow> string \<Rightarrow> string
     \<Rightarrow> (py_error + json) \<times> run_state" where
  "generate_slide_outline env provider model api_key raw_text guidance =
     retrying 3 (\<lambda>n. wait_exponential_jitter 1 8 n (net_jitter env n))
       (outline_attempt env provider model api_key raw_text guidance) 1
       \<lparr>rs_calls = 0, rs_sleeps = [], rs_attempts = 0\<rparr>"

subsection \<open>Transports to run the adapter on\<close>

definition ex_request :: http_request where
  "ex_request = \<lparr>req_url = ''https://example.invalid'', req_headers = [], req_json = JNull\<rparr>"

definition ex_response :: "nat \<Rightarrow> string \<Rightarrow> http_request \<Rightarrow> http_response" where
  "ex_response status body req =
     \<lparr>resp_status_code = status, resp_content = body, resp_text_readable = True,
      resp_request = req\<rparr>"

definition ex_net :: "nat \<Rightarrow> string \<Rightarrow> http_env" where
  \<comment> \<open>Every POST is answered with the same status and body.\<close>
  "ex_net status body =
     \<lparr>net_openai_base = None,
      net_post = (\<lambda>n req. Inr (ex_response status body req)),
      net_jitter = (\<lambda>n. 1 / 2)\<rparr>"

definition ex_openai_body :: string where
  \<open>ex_openai_body = ''{"choices":[{"message":{"content":"{}"}}]}''\<close>

definition ex_flaky_net :: http_env where
  \<comment> \<open>The first three POSTs fail in the transport; every later one is answered with
     status 200 and an outline.\<close>
  "ex_flaky_net =
     \<lparr>net_openai_base = None,
      net_post = (\<lambda>n req. if n < 3 then Inl TransportError
                             else Inr (ex_response 200 ex_openai_body req)),
      net_jitter = (\<lambda>n. 1 / 2)\<rparr>"

definition ex_payload :: payload where
  "ex_payload = \<lparr>p_system = ''system'', p_user = ''user''\<rparr>"

definition ex_state :: run_state where
  "ex_state = \<lparr>rs_calls = 0, rs_sleeps = [], rs_attempts = 0\<rparr>"

definition supported_provider :: "string \<Rightarrow> bool" where
  "supported_provider provider =
     (py_lower (py_strip provider) \<in> {''openai'', ''anthropic'', ''gemini''})"

definition error_body :: "http_response \<Rightarrow> string" where
  \<comment> \<open>The part of the body an error message shows.\<close>
  "error_body resp =
     (if resp_text_readable resp then take 500 (resp_content resp) else ''<no body>'')"

definition ex_final_error :: py_error where
  \<comment> \<open>What \<open>_raise_for_provider_error\<close> raises in an attempt of the call
     \<open>generate_slide_outline("openai", "", "k", "some text", "")\<close> that is answered
     with status 503 and the body \<open>down\<close>.\<close>
  "ex_final_error =
     raise_for_provider_error
       (ex_response 503 ''down''
          (openai_request (ex_net 503 ''down'') ''gpt-4o-mini'' ''k''
             \<lparr>p_system = SYSTEM_PROMPT, p_user = USER_PROMPT_TMPL ''some text'' []\<rparr>))
       ''OpenAI-compatible''"

section \<open>Properties of the image harvest\<close>

lemma scan_shapes_Inr:
  "scan_shapes sl acc = Inr r \<Longrightarrow> r = acc @ List.map_filter blob_of sl"
  by (induction sl acc rule: scan_shapes.induct) (auto simp: List.map_filter_simps blob_of_def)

lemma scan_slides_Inr:
  "scan_slides sls acc = Inr r \<Longrightarrow> r = acc @ concat (map (List.map_filter blob_of) sls)"
proof (induction sls arbitrary: acc)
  case Nil
  then show ?case by simp
next
  case (Cons sl sls)
  from Cons.prems obtain mid
    where m: "scan_shapes sl acc = Inr mid" and r: "scan_slides sls mid = Inr r"
    by (auto split: sum.splits)
  from scan_shapes_Inr[OF m] Cons.IH[OF r] show ?case by simp
qed

lemma first_of_length_append: "first_of_length pre x \<Longrightarrow> first_of_length (pre @ bs) x"
  unfolding first_of_length_def by fastforce

lemma first_of_length_snoc:
  "\<forall>y\<in>set pre. length y \<noteq> length b \<Longrightarrow> first_of_length (pre @ [b]) b"
  unfolding first_of_length_def by blast

lemma dedup_loop_inv:
  assumes "seen = length ` set uniq"
    and "distinct (map length uniq)"
    and "subseq uniq pre"
    and "\<forall>x\<in>set uniq. first_of_length pre x"
    and "\<forall>y\<in>set pre. y \<noteq> [] \<longrightarrow> length y \<in> seen"
    and "uniq = [] \<or> int (length uniq) < limit"
  shows "distinct (map length (dedup_loop limit bs uniq seen))
       \<and> subseq (dedup_loop limit bs uniq seen) (pre @ bs)
       \<and> (\<forall>x\<in>set (dedup_loop limit bs uniq seen). first_of_length (pre @ bs) x)
       \<and> int (length (dedup_loop limit bs uniq seen)) \<le> max 1 limit"
  using assms
proof (induction bs arbitrary: uniq seen pre)
  case Nil
  then show ?case by auto
next
  case (Cons b bs)
  define fresh where "fresh = (b \<noteq> [] \<and> length b \<notin> seen)"
  define uniq' where "uniq' = (if fresh then uniq @ [b] else uniq)"
  define seen' where "seen' = (if fresh then insert (length b) seen else seen)"
  have step: "dedup_loop limit (b # bs) uniq seen =
      (if int (length uniq') \<ge> limit then uniq' else dedup_loop limit bs uniq' seen')"
    by (simp add: fresh_def uniq'_def seen'_def Let_def)
  have i1: "seen' = length ` set uniq'"
    using Cons.prems(1) by (auto simp: uniq'_def seen'_def)
  have i2: "distinct (map length uniq')"
    using Cons.prems(1,2) by (auto simp: uniq'_def fresh_def)
  have i3: "subseq uniq' (pre @ [b])"
    using Cons.prems(3) by (auto simp: uniq'_def intro: subseq_rev_drop_many list_emb_append_mono)
  have nb: "fresh \<Longrightarrow> \<forall>y\<in>set pre. length y \<noteq> length b"
    using Cons.prems(5) by (auto simp: fresh_def)
  have i4: "\<forall>x\<in>set uniq'. first_of_length (pre @ [b]) x"
    using Cons.prems(4) nb
    by (auto simp: uniq'_def intro: first_of_length_append first_of_length_snoc)
  have i5: "\<forall>y\<in>set (pre @ [b]). y \<noteq> [] \<longrightarrow> length y \<in> seen'"
    using Cons.prems(5) by (auto simp: seen'_def fresh_def)
  have len: "int (length uniq') \<le> max 1 limit"
    using Cons.prems(6) by (auto simp: uniq'_def)
  show ?case
  proof (cases "int (length uniq') \<ge> limit")
    case True
    have "subseq uniq' ((pre @ [b]) @ bs)"
      using i3 by (rule subseq_rev_drop_many)
    moreover have "\<forall>x\<in>set uniq'. first_of_length ((pre @ [b]) @ bs) x"
      using i4 first_of_length_append by blast
    ultimately show ?thesis using True step i2 len by simp
  next
    case False
    then have "uniq' = [] \<or> int (length uniq') < limit" by simp
    from Cons.IH[OF i1 i2 i3 i4 i5 this] show ?thesis
      using False step by simp
  qed
qed

text \<open>
  C9. The reusable image set that \<open>collect_template_images\<close> returns with the default
  limit holds at most 8 blobs, their byte lengths are pairwise distinct, each one is the
  first blob of its byte length in scan order (existing slides in order, shapes in
  order), and the set keeps the scan order.
\<close>

theorem collect_template_images_first_occurrences:
  assumes "collect_template_images template_io 8 = Inr uniq"
    and "Presentation template_io = Inr prs"
  shows "length uniq \<le> 8
       \<and> distinct (map length uniq)
       \<and> (\<forall>x\<in>set uniq. first_of_length (scan_order prs) x)
       \<and> subseq uniq (scan_order prs)"
proof -
  from assms obtain blobs
    where sc: "scan_slides (prs_slides prs) [] = Inr blobs"
      and u: "uniq = dedup_loop 8 blobs [] {}"
    by (auto simp: collect_template_images_def split: sum.splits)
  from scan_slides_Inr[OF sc] have b: "blobs = scan_order prs"
    by (simp add: scan_order_def)
  have "distinct (map length (dedup_loop 8 blobs [] {}))
       \<and> subseq (dedup_loop 8 blobs [] {}) ([] @ blobs)
       \<and> (\<forall>x\<in>set (dedup_loop 8 blobs [] {}). first_of_length ([] @ blobs) x)
       \<and> int (length (dedup_loop 8 blobs [] {})) \<le> max 1 8"
    by (rule dedup_loop_inv) simp_all
  with u b show ?thesis by simp
qed

theorem collect_template_images_first_occurrences_witness:
  "collect_template_images (Inr ex_template) 8 = Inr [''abc'', ''hello'', ''de'']
   \<and> scan_order ex_template = [''abc'', ''xyz'', ''hello'', [], ''de'']
   \<and> first_of_length (scan_order ex_template) ''hello''
   \<and> subseq [''abc'', ''hello'', ''de''] (scan_order ex_template)"
proof -
  have r: "collect_template_images (Inr ex_template) 8 = Inr [''abc'', ''hello'', ''de'']"
    by code_simp
  have p: "Presentation (Inr ex_template) = Inr ex_template"
    by (simp add: Presentation_def)
  have s: "scan_order ex_template = [''abc'', ''xyz'', ''hello'', [], ''de'']"
    by code_simp
  note t = collect_template_images_first_occurrences[OF r p]
  from t have "first_of_length (scan_order ex_template) ''hello''"
    by (simp del: subseq_Cons2_iff)
  moreover from t have "subseq [''abc'', ''hello'', ''de''] (scan_order ex_template)"
    by blast
  ultimately show ?thesis using r s by blast
qed

section \<open>Properties of the layout selection\<close>

lemma find_enumerate_gen:
  "find (\<lambda>(i, l). Q i) (enumerate n ls) = Some (i, l)
     \<longleftrightarrow> n \<le> i \<and> i < n + length ls \<and> l = ls ! (i - n) \<and> Q i \<and> (\<forall>j. n \<le> j \<longrightarrow> j < i \<longrightarrow> \<not> Q j)"
proof (induction ls arbitrary: n)
  case Nil
  then show ?case by simp
next
  case (Cons a ls)
  show ?case
  proof (cases "Q n")
    case True
    have "(n \<le> i \<and> (\<forall>j. n \<le> j \<longrightarrow> j < i \<longrightarrow> \<not> Q j)) \<longleftrightarrow> i = n"
      using True by (metis le_neq_implies_less order_refl leD)
    then show ?thesis using True by auto
  next
    case False
    have a: "(n \<le> i \<and> Q i) \<longleftrightarrow> (Suc n \<le> i \<and> Q i)"
      using False by (metis Suc_leI le_neq_implies_less Suc_leD)
    have b: "Suc n \<le> i \<Longrightarrow> (\<forall>j. n \<le> j \<longrightarrow> j < i \<longrightarrow> \<not> Q j) \<longleftrightarrow> (\<forall>j. Suc n \<le> j \<longrightarrow> j < i \<longrightarrow> \<not> Q j)"
      using False by (metis Suc_leI le_neq_implies_less Suc_leD)
    have c: "Suc n \<le> i \<Longrightarrow> (a # ls) ! (i - n) = ls ! (i - Suc n)"
      by (simp add: Suc_diff_le)
    have f: "find (\<lambda>(i, l). Q i) (enumerate n (a # ls)) = find (\<lambda>(i, l). Q i) (enumerate (Suc n) ls)"
      using False by simp
    have "find (\<lambda>(i, l). Q i) (enumerate n (a # ls)) = Some (i, l)
       \<longleftrightarrow> Suc n \<le> i \<and> i < Suc n + length ls \<and> l = ls ! (i - Suc n) \<and> Q i
             \<and> (\<forall>j. Suc n \<le> j \<longrightarrow> j < i \<longrightarrow> \<not> Q j)"
      by (simp only: f Cons.IH)
    also have "\<dots> \<longleftrightarrow> n \<le> i \<and> i < n + length (a # ls) \<and> l = (a # ls) ! (i - n) \<and> Q i
             \<and> (\<forall>j. n \<le> j \<longrightarrow> j < i \<longrightarrow> \<not> Q j)"
      (is "?L \<longleftrightarrow> ?R")
    proof
      assume L: ?L
      then have s: "Suc n \<le> i" by simp
      from L b[OF s] c[OF s] s show ?R by simp
    next
      assume R: ?R
      then have s: "Suc n \<le> i" using a by blast
      from R b[OF s] c[OF s] s show ?L by simp
    qed
    finally show ?thesis .
  qed
qed

lemma find_enumerate_Some:
  "find (\<lambda>(i, l). Q i) (enumerate 0 ls) = Some (i, l)
     \<longleftrightarrow> i < length ls \<and> l = ls ! i \<and> Q i \<and> (\<forall>j<i. \<not> Q j)"
  by (simp add: find_enumerate_gen)

lemma find_enumerate_None:
  "find (\<lambda>(i, l). Q i) (enumerate 0 ls) = None \<longleftrightarrow> (\<forall>j<length ls. \<not> Q j)"
  unfolding find_None_iff by (auto simp: in_set_enumerate_eq)

lemma find_enumerate_cong:
  "(\<And>i. i < length ls \<Longrightarrow> Q i = R i) \<Longrightarrow>
   find (\<lambda>(i, l). Q i) (enumerate 0 ls) = find (\<lambda>(i, l). R i) (enumerate 0 ls)"
  by (rule find_cong) (auto simp: in_set_enumerate_eq)

lemma find_enumerate_in_set:
  "find P (enumerate 0 ls) = Some (i, l) \<Longrightarrow> l \<in> set ls"
  by (auto simp: find_Some_iff nth_enumerate_eq)

lemma layout_names_nth:
  "i < length ls \<Longrightarrow> layout_names ls ! i = effective_name ls i"
  by (simp add: layout_names_def effective_name_def py_or_def nth_enumerate_eq)

lemma exact_match_eq:
  "exact_match ls (layout_names ls) layout_hint =
     map_option snd (find (\<lambda>(i, l). hint_equals ls layout_hint i) (enumerate 0 ls))"
  unfolding exact_match_def
  by (subst find_enumerate_cong[where R = "hint_equals ls layout_hint"])
     (simp_all add: layout_names_nth hint_equals_def py_or_def)

lemma substring_match_eq:
  "substring_match ls (layout_names ls) want =
     map_option snd (find (\<lambda>(i, l). archetype_in ls want i) (enumerate 0 ls))"
  unfolding substring_match_def
  by (subst find_enumerate_cong[where R = "archetype_in ls want"])
     (simp_all add: layout_names_nth archetype_in_def py_or_def)

lemma exact_match_first:
  assumes "i < length ls" "hint_equals ls layout_hint i" "\<forall>j<i. \<not> hint_equals ls layout_hint j"
  shows "exact_match ls (layout_names ls) layout_hint = Some (ls ! i)"
proof -
  have "find (\<lambda>(i, l). hint_equals ls layout_hint i) (enumerate 0 ls) = Some (i, ls ! i)"
    using assms by (simp add: find_enumerate_Some)
  then show ?thesis by (simp add: exact_match_eq)
qed

lemma exact_match_none:
  assumes "\<forall>j<length ls. \<not> hint_equals ls layout_hint j"
  shows "exact_match ls (layout_names ls) layout_hint = None"
  using assms by (simp add: exact_match_eq find_enumerate_None)

lemma substring_match_first:
  assumes "i < length ls" "archetype_in ls want i" "\<forall>j<i. \<not> archetype_in ls want j"
  shows "substring_match ls (layout_names ls) want = Some (ls ! i)"
proof -
  have "find (\<lambda>(i, l). archetype_in ls want i) (enumerate 0 ls) = Some (i, ls ! i)"
    using assms by (simp add: find_enumerate_Some)
  then show ?thesis by (simp add: substring_match_eq)
qed

lemma substring_match_none:
  assumes "\<forall>j<length ls. \<not> archetype_in ls want j"
  shows "substring_match ls (layout_names ls) want = None"
  using assms by (simp add: substring_match_eq find_enumerate_None)

lemma priority_loop_first:
  assumes "p < length wants" "i < length ls" "archetype_in ls (wants ! p) i"
    and "\<forall>q<p. \<forall>j<length ls. \<not> archetype_in ls (wants ! q) j"
    and "\<forall>j<i. \<not> archetype_in ls (wants ! p) j"
  shows "priority_loop wants ls (layout_names ls) = Some (ls ! i)"
  using assms
proof (induction wants arbitrary: p)
  case Nil
  then show ?case by simp
next
  case (Cons w ws)
  show ?case
  proof (cases p)
    case 0
    with Cons.prems have "substring_match ls (layout_names ls) w = Some (ls ! i)"
      by (auto intro: substring_match_first)
    then show ?thesis by simp
  next
    case (Suc p')
    with Cons.prems(4) have "\<forall>j<length ls. \<not> archetype_in ls w j" by force
    then have n: "substring_match ls (layout_names ls) w = None"
      by (rule substring_match_none)
    have "priority_loop ws ls (layout_names ls) = Some (ls ! i)"
    proof (rule Cons.IH[of p'])
      show "p' < length ws" using Cons.prems(1) Suc by simp
      show "i < length ls" by fact
      show "archetype_in ls (ws ! p') i" using Cons.prems(3) Suc by simp
      show "\<forall>q<p'. \<forall>j<length ls. \<not> archetype_in ls (ws ! q) j"
        using Cons.prems(4) Suc by force
      show "\<forall>j<i. \<not> archetype_in ls (ws ! p') j" using Cons.prems(5) Suc by simp
    qed
    with n show ?thesis by simp
  qed
qed

lemma priority_loop_none:
  assumes "\<forall>w\<in>set wants. \<forall>j<length ls. \<not> archetype_in ls w j"
  shows "priority_loop wants ls (layout_names ls) = None"
  using assms by (induction wants) (simp_all add: substring_match_none)

lemma exact_match_in_set: "exact_match ls names h = Some l \<Longrightarrow> l \<in> set ls"
  unfolding exact_match_def by (auto dest: find_enumerate_in_set)

lemma substring_match_in_set: "substring_match ls names w = Some l \<Longrightarrow> l \<in> set ls"
  unfolding substring_match_def by (auto dest: find_enumerate_in_set)

lemma priority_loop_in_set: "priority_loop wants ls names = Some l \<Longrightarrow> l \<in> set ls"
  by (induction wants) (auto split: option.splits dest: substring_match_in_set)

lemma choose_layout_total:
  assumes "prs_slide_layouts prs = Inr ls" and "ls \<noteq> []"
  shows "\<exists>l. choose_layout prs layout_hint = Inr l \<and> l \<in> set ls"
proof (cases "exact_match ls (layout_names ls) layout_hint")
  case (Some l)
  then show ?thesis
    using assms by (auto simp: choose_layout_def dest: exact_match_in_set)
next
  case None
  show ?thesis
  proof (cases "priority_loop priority ls (layout_names ls)")
    case (Some l)
    then show ?thesis
      using assms None by (auto simp: choose_layout_def dest: priority_loop_in_set)
  next
    case n: None
    from assms(2) have "(if 1 < length ls then 1 else 0) < length ls" by auto
    then show ?thesis
      using assms None n by (auto simp: choose_layout_def Let_def)
  qed
qed

lemma choose_layout_no_layouts:
  assumes "prs_slide_layouts prs = Inr []"
  shows "choose_layout prs layout_hint = Inl IndexError"
proof -
  have "priority_loop priority [] (layout_names []) = None"
    by (rule priority_loop_none) simp
  then show ?thesis
    using assms by (simp add: choose_layout_def exact_match_def layout_names_def)
qed

lemma effective_name_named:
  "l_name (ls ! i) \<noteq> [] \<Longrightarrow> effective_name ls i = l_name (ls ! i)"
  by (simp add: effective_name_def)

text \<open>
  C4, as the code has it. The name that \<open>_choose_layout\<close> compares is \<open>names[i]\<close>, here
  \<open>effective_name\<close>: the name of the layout at index \<open>i\<close> when it has one, and \<open>layout-i\<close>
  when its name is empty. With the layout list \<open>ls\<close> of the template, the function
  returns (1) the first layout whose compared name equals the hint up to case; otherwise
  (2) for the first archetype of the priority list that is, up to case, a substring of
  some compared name, the first layout whose compared name has it; otherwise (3) the
  second layout when there are at least two, and the first when there is exactly one.
\<close>

theorem choose_layout_order:
  assumes "prs_slide_layouts prs = Inr ls"
  shows "(i < length ls \<and> hint_equals ls layout_hint i \<and> (\<forall>j<i. \<not> hint_equals ls layout_hint j)
            \<longrightarrow> choose_layout prs layout_hint = Inr (ls ! i))
       \<and> ((\<forall>j<length ls. \<not> hint_equals ls layout_hint j) \<and> p < length priority \<and> i < length ls
            \<and> archetype_in ls (priority ! p) i
            \<and> (\<forall>q<p. \<forall>j<length ls. \<not> archetype_in ls (priority ! q) j)
            \<and> (\<forall>j<i. \<not> archetype_in ls (priority ! p) j)
            \<longrightarrow> choose_layout prs layout_hint = Inr (ls ! i))
       \<and> ((\<forall>j<length ls. \<not> hint_equals ls layout_hint j)
            \<and> (\<forall>w\<in>set priority. \<forall>j<length ls. \<not> archetype_in ls w j)
            \<longrightarrow> (2 \<le> length ls \<longrightarrow> choose_layout prs layout_hint = Inr (ls ! 1))
              \<and> (length ls = 1 \<longrightarrow> choose_layout prs layout_hint = Inr (ls ! 0)))"
proof (intro conjI impI)
  assume "i < length ls \<and> hint_equals ls layout_hint i \<and> (\<forall>j<i. \<not> hint_equals ls layout_hint j)"
  then have "exact_match ls (layout_names ls) layout_hint = Some (ls ! i)"
    by (auto intro: exact_match_first)
  then show "choose_layout prs layout_hint = Inr (ls ! i)"
    using assms by (simp add: choose_layout_def)
next
  assume a: "(\<forall>j<length ls. \<not> hint_equals ls layout_hint j) \<and> p < length priority \<and> i < length ls
            \<and> archetype_in ls (priority ! p) i
            \<and> (\<forall>q<p. \<forall>j<length ls. \<not> archetype_in ls (priority ! q) j)
            \<and> (\<forall>j<i. \<not> archetype_in ls (priority ! p) j)"
  then have "exact_match ls (layout_names ls) layout_hint = None"
    by (auto intro: exact_match_none)
  moreover from a have "priority_loop priority ls (layout_names ls) = Some (ls ! i)"
    by (intro priority_loop_first[of p]) auto
  ultimately show "choose_layout prs layout_hint = Inr (ls ! i)"
    using assms by (simp add: choose_layout_def)
next
  assume a: "(\<forall>j<length ls. \<not> hint_equals ls layout_hint j)
            \<and> (\<forall>w\<in>set priority. \<forall>j<length ls. \<not> archetype_in ls w j)"
  then have e: "exact_match ls (layout_names ls) layout_hint = None"
    by (auto intro: exact_match_none)
  from a have n: "priority_loop priority ls (layout_names ls) = None"
    by (auto intro: priority_loop_none)
  { assume "2 \<le> length ls"
    then show "choose_layout prs layout_hint = Inr (ls ! 1)"
      using assms e n by (simp add: choose_layout_def) }
  { assume "length ls = 1"
    then show "choose_layout prs layout_hint = Inr (ls ! 0)"
      using assms e n by (simp add: choose_layout_def) }
qed

theorem choose_layout_order_witness:
  "choose_layout ex_template ''title and content'' = Inr (ex_layouts ! 0)
   \<and> choose_layout ex_template ''Nonexistent Layout'' = Inr (ex_layouts ! 0)
   \<and> choose_layout ex_custom_template ''Nonexistent Layout''
       = Inr \<lparr>l_name = ''Custom2'', l_placeholders = []\<rparr>"
proof -
  have l: "prs_slide_layouts ex_template = Inr ex_layouts"
    by (simp add: ex_template_def)
  have "0 < length ex_layouts \<and> hint_equals ex_layouts ''title and content'' 0"
    by code_simp
  then have h1: "0 < length ex_layouts \<and> hint_equals ex_layouts ''title and content'' 0
            \<and> (\<forall>j<0. \<not> hint_equals ex_layouts ''title and content'' j)"
    by simp
  have "list_all (\<lambda>j. \<not> hint_equals ex_layouts ''Nonexistent Layout'' j) [0..<length ex_layouts]"
    by code_simp
  then have n2: "\<forall>j<length ex_layouts. \<not> hint_equals ex_layouts ''Nonexistent Layout'' j"
    by (simp add: list_all_iff)
  have a2: "0 < length priority \<and> 0 < length ex_layouts
            \<and> archetype_in ex_layouts (priority ! 0) 0"
    by code_simp
  define cs where "cs = [\<lparr>l_name = ''Custom1'', l_placeholders = []\<rparr>,
                         \<lparr>l_name = ''Custom2'', l_placeholders = []\<rparr>]"
  have c: "prs_slide_layouts ex_custom_template = Inr cs"
    by (simp add: ex_custom_template_def cs_def)
  have "list_all (\<lambda>j. \<not> hint_equals cs ''Nonexistent Layout'' j) [0..<length cs]"
    unfolding cs_def by code_simp
  then have n3: "\<forall>j<length cs. \<not> hint_equals cs ''Nonexistent Layout'' j"
    by (simp add: list_all_iff)
  have "list_all (\<lambda>w. list_all (\<lambda>j. \<not> archetype_in cs w j) [0..<length cs]) priority"
    unfolding cs_def by code_simp
  then have a3: "\<forall>w\<in>set priority. \<forall>j<length cs. \<not> archetype_in cs w j"
    by (simp add: list_all_iff)
  have len: "2 \<le> length cs" "cs ! 1 = \<lparr>l_name = ''Custom2'', l_placeholders = []\<rparr>"
    by (simp_all add: cs_def)
  have p2: "(\<forall>j<length ex_layouts. \<not> hint_equals ex_layouts ''Nonexistent Layout'' j)
            \<and> 0 < length priority \<and> 0 < length ex_layouts
            \<and> archetype_in ex_layouts (priority ! 0) 0
            \<and> (\<forall>q<0. \<forall>j<length ex_layouts. \<not> archetype_in ex_layouts (priority ! q) j)
            \<and> (\<forall>j<0. \<not> archetype_in ex_layouts (priority ! 0) j)"
    using n2 a2 by blast
  have p3: "(\<forall>j<length cs. \<not> hint_equals cs ''Nonexistent Layout'' j)
            \<and> (\<forall>w\<in>set priority. \<forall>j<length cs. \<not> archetype_in cs w j)"
    using n3 a3 by blast
  note t1 = choose_layout_order[OF l, of 0 "''title and content''" 0, THEN conjunct1, THEN mp]
  note t2 = choose_layout_order[OF l, of 0 "''Nonexistent Layout''" 0,
                                THEN conjunct2, THEN conjunct1, THEN mp]
  note t3 = choose_layout_order[OF c, of 0 "''Nonexistent Layout''" 0,
                                THEN conjunct2, THEN conjunct2, THEN mp, THEN conjunct1, THEN mp]
  from t1[OF h1] t2[OF p2] t3[OF p3 len(1)] len(2) show ?thesis
    by (simp only:)
qed

text \<open>
  A template whose first layout has no name. The hint \<open>layout-0\<close> equals no layout name
  and no archetype occurs in a layout name, yet the first layout is returned and not the
  second. The empty hint equals the name of the first layout, yet the second layout is
  returned.
\<close>

theorem layout_name_counterexample:
  "list_all (\<lambda>l. py_lower (l_name l) \<noteq> py_lower ''layout-0'') ex_nameless_layouts
   \<and> list_all (\<lambda>w. list_all (\<lambda>l. \<not> py_in (py_lower w) (py_lower (l_name l)))
                        ex_nameless_layouts) priority
   \<and> length ex_nameless_layouts = 2
   \<and> ex_nameless_layouts ! 0 \<noteq> ex_nameless_layouts ! 1
   \<and> choose_layout ex_nameless_template ''layout-0'' = Inr (ex_nameless_layouts ! 0)
   \<and> py_lower (l_name (ex_nameless_layouts ! 0)) = py_lower []
   \<and> choose_layout ex_nameless_template [] = Inr (ex_nameless_layouts ! 1)"
proof -
  have 1: "list_all (\<lambda>l. py_lower (l_name l) \<noteq> py_lower ''layout-0'') ex_nameless_layouts"
    by code_simp
  have 2: "list_all (\<lambda>w. list_all (\<lambda>l. \<not> py_in (py_lower w) (py_lower (l_name l)))
                             ex_nameless_layouts) priority"
    by code_simp
  have 3: "length ex_nameless_layouts = 2"
          "ex_nameless_layouts ! 0 \<noteq> ex_nameless_layouts ! 1"
    by (simp_all add: ex_nameless_layouts_def)
  have 4: "choose_layout ex_nameless_template ''layout-0'' = Inr (ex_nameless_layouts ! 0)"
    by code_simp
  have 5: "py_lower (l_name (ex_nameless_layouts ! 0)) = py_lower []"
    by code_simp
  have 6: "choose_layout ex_nameless_template [] = Inr (ex_nameless_layouts ! 1)"
    by code_simp
  from 1 2 3 4 5 6 show ?thesis
    by (simp only: simp_thms)
qed

section \<open>Properties of the deck schema\<close>

lemma validate_str_items_Inr:
  "validate_str_items vs = Inr bs \<Longrightarrow> vs = map JStr bs"
proof (induction vs arbitrary: bs)
  case Nil
  then show ?case by simp
next
  case (Cons v vs)
  from Cons.prems obtain s ss
    where v: "validate_str v = Inr s" and r: "validate_str_items vs = Inr ss" and b: "bs = s # ss"
    by (auto split: sum.splits)
  from v have "v = JStr s" by (cases v) simp_all
  with Cons.IH[OF r] b show ?case by simp
qed

lemma validate_bullets_Inr:
  assumes "validate_bullets kvs = Inr r"
  shows "case map_of kvs ''bullets'' of
           None \<Rightarrow> r = []
         | Some v \<Rightarrow> (\<exists>bs. v = JArr (map JStr bs) \<and> r = take 8 bs)"
proof (cases "map_of kvs ''bullets''")
  case None
  with assms show ?thesis by (simp add: validate_bullets_def)
next
  case (Some v)
  with assms obtain bs where l: "validate_str_list v = Inr bs" and r: "r = take 8 bs"
    by (auto simp: validate_bullets_def clamp_bullets_def split: sum.splits)
  from l obtain vs where "v = JArr vs" "validate_str_items vs = Inr bs"
    by (cases v) simp_all
  with validate_str_items_Inr have "v = JArr (map JStr bs)" by blast
  with Some r show ?thesis by auto
qed

text \<open>
  C5. For every slide that schema validation accepts, the validated bullets are the first
  \<open>min n 8\<close> entries of the \<open>n\<close> input bullets, in their order (none when the input has no
  bullets key); twelve bullets validate to the first eight.
\<close>

theorem validated_bullets_first_eight:
  assumes "validate_slide raw = Inr s"
  shows "\<exists>kvs. raw = JObj kvs \<and>
           (case map_of kvs ''bullets'' of
              None \<Rightarrow> s_bullets s = []
            | Some v \<Rightarrow>
                (\<exists>bs. v = JArr (map JStr bs)
                      \<and> s_bullets s = take (min (length bs) 8) bs
                      \<and> length (s_bullets s) = min (length bs) 8))"
proof -
  from assms obtain kvs where raw: "raw = JObj kvs"
    by (cases raw) simp_all
  with assms obtain r where b: "validate_bullets kvs = Inr r" and s: "s_bullets s = r"
    by (auto split: sum.splits)
  have "case map_of kvs ''bullets'' of
           None \<Rightarrow> s_bullets s = []
         | Some v \<Rightarrow>
             (\<exists>bs. v = JArr (map JStr bs)
                   \<and> s_bullets s = take (min (length bs) 8) bs
                   \<and> length (s_bullets s) = min (length bs) 8)"
  proof (cases "map_of kvs ''bullets''")
    case None
    with validate_bullets_Inr[OF b] s show ?thesis by simp
  next
    case (Some v)
    with validate_bullets_Inr[OF b] obtain bs where "v = JArr (map JStr bs)" "r = take 8 bs"
      by auto
    moreover have "take 8 bs = take (min (length bs) 8) bs"
      by (simp add: min_def)
    ultimately show ?thesis using Some s by auto
  qed
  with raw show ?thesis by blast
qed

theorem validated_bullets_first_eight_witness:
  "validate_slide ex_raw_slide =
     Inr \<lparr>s_title = ''Twelve'',
          s_bullets = [''b1'', ''b2'', ''b3'', ''b4'', ''b5'', ''b6'', ''b7'', ''b8''],
          s_layout_hint = Some ''Title and Content'', s_notes = None\<rparr>
   \<and> (\<exists>kvs. ex_raw_slide = JObj kvs \<and> map_of kvs ''bullets'' \<noteq> None)"
proof -
  have r: "validate_slide ex_raw_slide =
     Inr \<lparr>s_title = ''Twelve'',
          s_bullets = [''b1'', ''b2'', ''b3'', ''b4'', ''b5'', ''b6'', ''b7'', ''b8''],
          s_layout_hint = Some ''Title and Content'', s_notes = None\<rparr>"
    by code_simp
  from validated_bullets_first_eight[OF r] obtain kvs
    where k: "ex_raw_slide = JObj kvs" by blast
  then have "map_of kvs ''bullets'' \<noteq> None"
    by (auto simp: ex_raw_slide_def)
  with r k show ?thesis by blast
qed

section \<open>Properties of the build\<close>

lemma build_slide_layout_error:
  "choose_layout prs (case s_layout_hint s of None \<Rightarrow> [] | Some h \<Rightarrow> h) = Inl e
     \<Longrightarrow> build_slide random env prs images i s rng = Inl e"
  by (simp add: build_slide_def)

lemma build_slide_ok:
  assumes "choose_layout prs (case s_layout_hint s of None \<Rightarrow> [] | Some h \<Rightarrow> h) = Inr l"
    and "\<not> env_notes_slide_fails env i"
  shows "\<exists>out rng'. build_slide random env prs images i s rng = Inr (out, rng')"
  using assms by (simp add: build_slide_def Let_def split: prod.splits)

lemma build_slide_chosen:
  assumes "build_slide random env prs images i s rng = Inr (out, rng')"
  shows "os_chosen out # draw_sequence random images qs rng'
           = draw_sequence random images (qualifying prs s # qs) rng"
proof -
  from assms obtain layout
    where l: "choose_layout prs (case s_layout_hint s of None \<Rightarrow> [] | Some h \<Rightarrow> h) = Inr layout"
    by (auto simp: build_slide_def split: sum.splits)
  have q: "qualifying prs s \<longleftrightarrow> filter (\<lambda>ph. ph_type ph = 18) (l_placeholders layout) \<noteq> []"
    using l by (auto simp: qualifying_def filter_empty_conv)
  show ?thesis
  proof (cases "qualifying prs s \<and> images \<noteq> []")
    case True
    obtain c g where cg: "rng_choice random rng images = (c, g)"
      by (cases "rng_choice random rng images")
    from assms l True q cg have "os_chosen out = Some c" "rng' = g"
      by (auto simp: build_slide_def Let_def split: if_splits)
    with True cg show ?thesis by simp
  next
    case False
    from assms l False q have "os_chosen out = None" "rng' = rng"
      by (auto simp: build_slide_def Let_def split: if_splits)
    with False show ?thesis by auto
  qed
qed

lemma build_slides_chosen:
  "build_slides random env prs images i ss rng = Inr outs
     \<Longrightarrow> map os_chosen outs = draw_sequence random images (map (qualifying prs) ss) rng"
proof (induction ss arbitrary: i rng outs)
  case Nil
  then show ?case by simp
next
  case (Cons s ss)
  from Cons.prems obtain out rng' rest
    where one: "build_slide random env prs images i s rng = Inr (out, rng')"
      and more: "build_slides random env prs images (Suc i) ss rng' = Inr rest"
      and outs: "outs = out # rest"
    by (auto split: sum.splits prod.splits)
  from Cons.IH[OF more] build_slide_chosen[OF one] outs show ?case by simp
qed

lemma build_slides_ok:
  assumes "prs_slide_layouts prs = Inr ls" and "ls \<noteq> []"
    and "\<forall>k<length ss. \<not> env_notes_slide_fails env (i + k)"
  shows "\<exists>outs. build_slides random env prs images i ss rng = Inr outs
               \<and> length outs = length ss"
  using assms(3)
proof (induction ss arbitrary: i rng)
  case Nil
  then show ?case by simp
next
  case (Cons s ss)
  from choose_layout_total[OF assms(1,2)] obtain l
    where c: "choose_layout prs (case s_layout_hint s of None \<Rightarrow> [] | Some h \<Rightarrow> h) = Inr l"
    by blast
  from Cons.prems have n: "\<not> env_notes_slide_fails env i" by force
  from build_slide_ok[OF c n, of random images rng] obtain out rng'
    where one: "build_slide random env prs images i s rng = Inr (out, rng')"
    by blast
  have "\<forall>k<length ss. \<not> env_notes_slide_fails env (Suc i + k)"
    using Cons.prems by force
  from Cons.IH[OF this] obtain outs
    where "build_slides random env prs images (Suc i) ss rng' = Inr outs"
          "length outs = length ss"
    by blast
  with one show ?case by simp
qed

lemma build_slides_layout_error:
  assumes "ss \<noteq> []"
    and "\<And>h. choose_layout prs h = Inl e"
  shows "build_slides random env prs images i ss rng = Inl e"
  using assms by (cases ss) (simp_all add: build_slide_layout_error)

text \<open>
  C7. Every build seeds the generator with 42, and the images chosen for the new slides
  are the draws of that generator taken one per qualifying slide, in slide order. Hence
  two builds of one deck against one template choose the same image for every slide,
  whatever the document library does in either build.
\<close>

theorem picture_choice_deterministic:
  assumes "Presentation template_io = Inr prs"
    and "build_presentation random env template_io deck = Inr doc"
    and "build_presentation random env' template_io deck = Inr doc'"
  shows "map os_chosen (doc_new_slides doc)
           = draw_sequence random (harvest template_io)
               (map (qualifying prs) (d_slides deck)) (Random random 42)
       \<and> map os_chosen (doc_new_slides doc') = map os_chosen (doc_new_slides doc)"
proof -
  have chosen: "map os_chosen (doc_new_slides d)
           = draw_sequence random (harvest template_io)
               (map (qualifying prs) (d_slides deck)) (Random random 42)"
    if "build_presentation random e template_io deck = Inr d" for e d
  proof -
    from that assms(1) obtain outs
      where b: "build_slides random e prs (harvest template_io) 0 (d_slides deck)
               (Random random 42) = Inr outs"
        and o: "doc_new_slides d = outs"
      by (auto simp: build_presentation_def Let_def split: sum.splits if_splits)
    from build_slides_chosen[OF b] o show ?thesis by simp
  qed
  from chosen[OF assms(2)] chosen[OF assms(3)] show ?thesis by simp
qed

theorem picture_choice_deterministic_witness:
  "map os_chosen (doc_new_slides
       (projr (build_presentation ex_random ex_env (Inr ex_template) ex_deck)))
     = [Some ''abc'', None, Some ''hello'']
   \<and> map os_chosen (doc_new_slides
       (projr (build_presentation ex_random ex_env_cosmetic_failures (Inr ex_template) ex_deck)))
     = [Some ''abc'', None, Some ''hello'']"
proof -
  have "\<not> isl (build_presentation ex_random ex_env (Inr ex_template) ex_deck)"
    by code_simp
  then have b1: "build_presentation ex_random ex_env (Inr ex_template) ex_deck
      = Inr (projr (build_presentation ex_random ex_env (Inr ex_template) ex_deck))"
    by simp
  have "\<not> isl (build_presentation ex_random ex_env_cosmetic_failures (Inr ex_template) ex_deck)"
    by code_simp
  then have b2: "build_presentation ex_random ex_env_cosmetic_failures (Inr ex_template) ex_deck
      = Inr (projr (build_presentation ex_random ex_env_cosmetic_failures (Inr ex_template) ex_deck))"
    by simp
  have p: "Presentation (Inr ex_template) = Inr ex_template"
    by (simp add: Presentation_def)
  have d: "draw_sequence ex_random (harvest (Inr ex_template))
             (map (qualifying ex_template) (d_slides ex_deck)) (Random ex_random 42)
           = [Some ''abc'', None, Some ''hello'']"
    by code_simp
  from picture_choice_deterministic[OF p b1 b2] d show ?thesis
    by (simp only:)
qed

text \<open>
  C8, as the code has it. With a template that opens, a non-empty layout list, reachable
  notes slides and a \<open>save\<close> that succeeds, the build returns a document with one new
  slide per deck slide whatever the title fonts report, whichever \<open>add_picture\<close> calls
  raise and whatever the existing slides hold (so also when the harvest raises): these
  three failures are swallowed, each on its own. A layout list that cannot be retrieved
  aborts a build with at least one slide, a failing \<open>save\<close> aborts every build, and so
  does a template that \<open>Presentation\<close> cannot open.
\<close>

theorem cosmetic_failures_swallowed:
  "(prs_slide_layouts prs = Inr ls \<and> ls \<noteq> []
      \<and> (\<forall>i<length (d_slides deck). \<not> env_notes_slide_fails env i) \<and> \<not> env_save_fails env
      \<longrightarrow> (\<forall>fonts picture_fails existing.
             \<exists>doc. build_presentation random
                      (env\<lparr>env_title_fonts := fonts, env_add_picture_fails := picture_fails\<rparr>)
                      (Inr (prs\<lparr>prs_slides := existing\<rparr>)) deck = Inr doc
                   \<and> length (doc_new_slides doc) = length (d_slides deck)))
   \<and> (prs_slide_layouts prs = Inl e \<and> d_slides deck \<noteq> []
      \<longrightarrow> build_presentation random env (Inr prs) deck = Inl e)
   \<and> (env_save_fails env \<longrightarrow> isl (build_presentation random env (Inr prs) deck))
   \<and> build_presentation random env (Inl e) deck = Inl e"
proof (intro conjI impI allI)
  fix fonts picture_fails existing
  assume a: "prs_slide_layouts prs = Inr ls \<and> ls \<noteq> []
      \<and> (\<forall>i<length (d_slides deck). \<not> env_notes_slide_fails env i) \<and> \<not> env_save_fails env"
  define env' where "env' = env\<lparr>env_title_fonts := fonts, env_add_picture_fails := picture_fails\<rparr>"
  define prs' where "prs' = prs\<lparr>prs_slides := existing\<rparr>"
  have l: "prs_slide_layouts prs' = Inr ls" "ls \<noteq> []"
    using a by (simp_all add: prs'_def)
  have n: "\<forall>k<length (d_slides deck). \<not> env_notes_slide_fails env' (0 + k)"
    using a by (simp add: env'_def)
  from build_slides_ok[OF l n, of random "harvest (Inr prs')" "Random random 42"] obtain outs
    where "build_slides random env' prs' (harvest (Inr prs')) 0 (d_slides deck)
             (Random random 42) = Inr outs"
      and "length outs = length (d_slides deck)"
    by blast
  moreover have "\<not> env_save_fails env'" using a by (simp add: env'_def)
  ultimately show "\<exists>doc. build_presentation random env' (Inr prs') deck = Inr doc
                   \<and> length (doc_new_slides doc) = length (d_slides deck)"
    by (simp add: build_presentation_def Presentation_def)
next
  assume a: "prs_slide_layouts prs = Inl e \<and> d_slides deck \<noteq> []"
  then have "\<And>h. choose_layout prs h = Inl e"
    by (simp add: choose_layout_def)
  with a have "build_slides random env prs (harvest (Inr prs)) 0 (d_slides deck)
                 (Random random 42) = Inl e"
    by (intro build_slides_layout_error) simp_all
  then show "build_presentation random env (Inr prs) deck = Inl e"
    by (simp add: build_presentation_def Presentation_def)
next
  assume "env_save_fails env"
  then show "isl (build_presentation random env (Inr prs) deck)"
    by (simp add: build_presentation_def Presentation_def Let_def split: sum.splits)
next
  show "build_presentation random env (Inl e) deck = Inl e"
    by (simp add: build_presentation_def Presentation_def)
qed

theorem cosmetic_failures_swallowed_witness:
  "(\<exists>doc. build_presentation ex_random ex_env_cosmetic_failures
             (Inr ex_template_unknown_shape) ex_deck = Inr doc
          \<and> length (doc_new_slides doc) = length (d_slides ex_deck))
   \<and> collect_template_images (Inr ex_template_unknown_shape) 8 = Inl NotImplementedError
   \<and> isl (build_presentation ex_random (ex_env\<lparr>env_save_fails := True\<rparr>) (Inr ex_template) ex_deck)"
proof -
  have h: "prs_slide_layouts ex_template = Inr ex_layouts \<and> ex_layouts \<noteq> []
      \<and> (\<forall>i<length (d_slides ex_deck). \<not> env_notes_slide_fails ex_env i)
      \<and> \<not> env_save_fails ex_env"
    by (simp add: ex_template_def ex_layouts_def ex_env_def)
  have e: "ex_env\<lparr>env_title_fonts := (\<lambda>i. [Inl LibraryError]),
                  env_add_picture_fails := (\<lambda>i b. True)\<rparr> = ex_env_cosmetic_failures"
    by (simp add: ex_env_def ex_env_cosmetic_failures_def)
  have t: "ex_template\<lparr>prs_slides := [[Picture (Some ''abc''), UnknownShape]]\<rparr>
             = ex_template_unknown_shape"
    by (simp add: ex_template_def ex_template_unknown_shape_def)
  have c: "collect_template_images (Inr ex_template_unknown_shape) 8 = Inl NotImplementedError"
    by code_simp
  have s: "env_save_fails (ex_env\<lparr>env_save_fails := True\<rparr>)" by simp
  note sw = cosmetic_failures_swallowed[where prs = ex_template and ls = ex_layouts and deck = ex_deck
        and env = ex_env and random = ex_random,
      THEN conjunct1, THEN mp, OF h, rule_format,
      where fonts = "\<lambda>i. [Inl LibraryError]" and picture_fails = "\<lambda>i b. True"
        and existing = "[[Picture (Some ''abc''), UnknownShape]]"]
  note sv = cosmetic_failures_swallowed[where prs = ex_template and deck = ex_deck
        and env = "ex_env\<lparr>env_save_fails := True\<rparr>" and random = ex_random,
      THEN conjunct2, THEN conjunct2, THEN conjunct1, THEN mp, OF s]
  from sw sv c show ?thesis
    unfolding e t by blast
qed

text \<open>
  Two builds that abort although the layout list is retrieved and \<open>save\<close> would succeed:
  one where the notes slide cannot be reached, one where the uploaded bytes are no
  package and \<open>Presentation\<close> raises.
\<close>

theorem only_layout_and_save_abort_counterexample:
  "prs_slide_layouts ex_template = Inr ex_layouts
   \<and> \<not> env_save_fails ex_env_notes_fail
   \<and> build_presentation ex_random ex_env_notes_fail (Inr ex_template) ex_deck = Inl LibraryError
   \<and> \<not> env_save_fails ex_env
   \<and> build_presentation ex_random ex_env (Inl PackageNotFoundError) ex_deck
       = Inl PackageNotFoundError"
proof -
  have "build_presentation ex_random ex_env_notes_fail (Inr ex_template) ex_deck = Inl LibraryError"
    by code_simp
  moreover have "build_presentation ex_random ex_env (Inl PackageNotFoundError) ex_deck
       = Inl PackageNotFoundError"
    by (simp add: build_presentation_def Presentation_def)
  ultimately show ?thesis
    by (simp add: ex_template_def ex_env_notes_fail_def ex_env_def)
qed

text \<open>
  C10. With an empty layout list the fallback of \<open>_choose_layout\<close> indexes position 0 of
  the empty list, so the selection raises IndexError for every hint and the build raises
  it for every deck with at least one slide; with at least one layout the selection
  always returns a layout of the list.
\<close>

theorem empty_layout_list_fails:
  "(prs_slide_layouts prs = Inr []
      \<longrightarrow> choose_layout prs layout_hint = Inl IndexError
        \<and> (d_slides deck \<noteq> []
             \<longrightarrow> build_presentation random env (Inr prs) deck = Inl IndexError))
   \<and> (prs_slide_layouts prs = Inr ls \<and> ls \<noteq> []
      \<longrightarrow> (\<exists>l. choose_layout prs layout_hint = Inr l \<and> l \<in> set ls))"
proof (intro conjI impI)
  assume a: "prs_slide_layouts prs = Inr []"
  then show "choose_layout prs layout_hint = Inl IndexError"
    by (rule choose_layout_no_layouts)
  assume "d_slides deck \<noteq> []"
  moreover from a have "\<And>h. choose_layout prs h = Inl IndexError"
    by (rule choose_layout_no_layouts)
  ultimately have "build_slides random env prs (harvest (Inr prs)) 0 (d_slides deck)
                 (Random random 42) = Inl IndexError"
    by (intro build_slides_layout_error) simp_all
  then show "build_presentation random env (Inr prs) deck = Inl IndexError"
    by (simp add: build_presentation_def Presentation_def)
next
  assume "prs_slide_layouts prs = Inr ls \<and> ls \<noteq> []"
  then show "\<exists>l. choose_layout prs layout_hint = Inr l \<and> l \<in> set ls"
    using choose_layout_total by blast
qed

theorem empty_layout_list_fails_witness:
  "choose_layout ex_no_layouts ''Title and Content'' = Inl IndexError
   \<and> build_presentation ex_random ex_env (Inr ex_no_layouts) ex_deck = Inl IndexError
   \<and> (\<exists>l. choose_layout ex_template ''Title and Content'' = Inr l \<and> l \<in> set ex_layouts)"
proof -
  have n: "prs_slide_layouts ex_no_layouts = Inr []"
    by (simp add: ex_no_layouts_def)
  have d: "d_slides ex_deck \<noteq> []"
    by (simp add: ex_deck_def)
  have l: "prs_slide_layouts ex_template = Inr ex_layouts \<and> ex_layouts \<noteq> []"
    by (simp add: ex_template_def ex_layouts_def)
  note t = empty_layout_list_fails[where prs = ex_no_layouts and layout_hint = "''Title and Content''"
        and deck = ex_deck and random = ex_random and env = ex_env, THEN conjunct1, THEN mp, OF n]
  note u = empty_layout_list_fails[where prs = ex_template and ls = ex_layouts
        and layout_hint = "''Title and Content''",
      THEN conjunct2, THEN mp, OF l]
  from t d u show ?thesis by blast
qed

section \<open>The decoder never runs out of calls\<close>

lemma skip_ws_length: "length (skip_ws s) \<le> length s"
  by (simp add: skip_ws_def length_dropWhile_le)

lemma scanstring_eq:
  "scanstring (c # cs) acc =
     (if c = dquote then Inr (acc, cs)
      else if c = backslash then
        (case read_escape cs of
           Inl e \<Rightarrow> Inl e
         | Inr (x, rest) \<Rightarrow> scanstring rest (acc @ [x]))
      else if (of_char c :: nat) \<le> 31 then Inl JSONDecodeError
      else scanstring cs (acc @ [c]))"
  by (simp add: read_escape_def split: list.splits option.splits)

lemma read_escape_shrinks: "read_escape cs = Inr (x, rest) \<Longrightarrow> length rest < length cs"
  by (auto simp: read_escape_def split: list.splits option.splits if_splits)

lemma read_escape_error: "read_escape cs \<noteq> Inl RecursionError"
  by (simp add: read_escape_def split: list.splits option.splits)

lemma scanstring_shrinks:
  "scanstring cs acc = Inr (str, rest) \<Longrightarrow> length rest < length cs"
proof (induction cs arbitrary: acc rule: length_induct)
  case (1 cs)
  show ?case
  proof (cases cs)
    case Nil
    with "1.prems" show ?thesis by simp
  next
    case (Cons c cs')
    note p = "1.prems"[unfolded Cons scanstring_eq]
    have ih: "length rest < length xs"
      if "length xs \<le> length cs'" "scanstring xs a = Inr (str, rest)" for xs a
      using "1.IH" that Cons by (metis le_imp_less_Suc length_Cons)
    show ?thesis
    proof (cases "c = dquote")
      case True
      with p Cons show ?thesis by simp
    next
      case nq: False
      show ?thesis
      proof (cases "c = backslash")
        case True
        with p nq obtain x r where e: "read_escape cs' = Inr (x, r)"
          and s: "scanstring r (acc @ [x]) = Inr (str, rest)"
          by (auto split: sum.splits)
        from read_escape_shrinks[OF e] have "length r \<le> length cs'" by simp
        from ih[OF this s] read_escape_shrinks[OF e] Cons show ?thesis by simp
      next
        case False
        with p nq have "scanstring cs' (acc @ [c]) = Inr (str, rest)"
          by (simp split: if_splits)
        from ih[OF _ this] Cons show ?thesis by simp
      qed
    qed
  qed
qed

lemma scanstring_error: "scanstring cs acc \<noteq> Inl RecursionError"
proof (induction cs arbitrary: acc rule: length_induct)
  case (1 cs)
  show ?case
  proof (cases cs)
    case Nil
    then show ?thesis by simp
  next
    case (Cons c cs')
    have ih: "scanstring xs a \<noteq> Inl RecursionError" if "length xs \<le> length cs'" for xs a
      using "1.IH" that Cons by (metis le_imp_less_Suc length_Cons)
    have "scanstring r a \<noteq> Inl RecursionError" if "read_escape cs' = Inr (x, r)" for x r a
      using read_escape_shrinks[OF that] ih[of r a] by simp
    then show ?thesis
      unfolding Cons scanstring_eq
      using read_escape_error[of cs'] ih[of cs']
      by (auto split: sum.splits)
  qed
qed

lemma sign_part_length: "sign_part s = (sg, r) \<Longrightarrow> length r \<le> length s"
  by (auto simp: sign_part_def split: list.splits if_splits)

lemma int_part_shrinks: "int_part s = Some (ip, r) \<Longrightarrow> length r < length s"
  by (auto simp: int_part_def less_Suc_eq_le length_dropWhile_le split: list.splits if_splits)

lemma frac_part_length: "frac_part s = (fp, r) \<Longrightarrow> length r \<le> length s"
  by (auto simp: frac_part_def split: list.splits if_splits
           intro: le_SucI length_dropWhile_le)

lemma exp_part_length: "exp_part s = (ep, r) \<Longrightarrow> length r \<le> length s"
  by (auto simp: exp_part_def Let_def split: list.splits if_splits prod.splits
           intro: le_SucI length_dropWhile_le)

lemma match_number_shrinks:
  assumes "match_number s = Some (v, r)"
  shows "length r < length s"
proof -
  obtain sg s1 where a: "sign_part s = (sg, s1)" by (cases "sign_part s")
  from assms a obtain ip s2 where b: "int_part s1 = Some (ip, s2)"
    by (auto simp: match_number_def split: option.splits)
  obtain fp s3 where c: "frac_part s2 = (fp, s3)" by (cases "frac_part s2")
  obtain ep s4 where d: "exp_part s3 = (ep, s4)" by (cases "exp_part s3")
  from assms a b c d have "r = s4"
    by (auto simp: match_number_def split: if_splits)
  with sign_part_length[OF a] int_part_shrinks[OF b] frac_part_length[OF c] exp_part_length[OF d]
  show ?thesis by simp
qed

lemma skip_ws_Cons_length: "skip_ws s = x # r \<Longrightarrow> length r < length s"
  using skip_ws_length[of s] by simp

lemma scan_shrinks:
  "(\<forall>s v r. scan_once n s = Inr (v, r) \<longrightarrow> length r < length s)
   \<and> (\<forall>s pairs v r. parse_object n s pairs = Inr (v, r) \<longrightarrow> length r < length s)
   \<and> (\<forall>s vals v r. parse_array n s vals = Inr (v, r) \<longrightarrow> length r < length s)"
proof (induction n)
  case 0
  show ?case by simp
next
  case (Suc n)
  then have ih1: "\<And>s v r. scan_once n s = Inr (v, r) \<Longrightarrow> length r < length s"
    and ih2: "\<And>s pairs v r. parse_object n s pairs = Inr (v, r) \<Longrightarrow> length r < length s"
    and ih3: "\<And>s vals v r. parse_array n s vals = Inr (v, r) \<Longrightarrow> length r < length s"
    by blast+
  have one: "length r < length s" if a: "scan_once (Suc n) s = Inr (v, r)" for s v r
  proof (cases s)
    case Nil
    with a show ?thesis by simp
  next
    case (Cons c cs)
    show ?thesis
    proof (cases "c = dquote")
      case True
      with a Cons obtain str where "scanstring cs [] = Inr (str, r)"
        by (auto split: sum.splits)
      from scanstring_shrinks[OF this] Cons show ?thesis by simp
    next
      case nq: False
      show ?thesis
      proof (cases "c = CHR ''{''")
        case True
        with a Cons nq obtain x rest where w: "skip_ws cs = x # rest"
          and d: "(x = CHR ''}'' \<and> r = rest) \<or> parse_object n (x # rest) [] = Inr (v, r)"
          by (auto split: list.splits if_splits)
        from d have "length r \<le> length rest"
          using ih2[of "x # rest" "[]" v r] by auto
        with skip_ws_Cons_length[OF w] Cons show ?thesis by simp
      next
        case nb: False
        show ?thesis
        proof (cases "c = CHR ''[''")
          case True
          with a Cons nq nb obtain x rest where w: "skip_ws cs = x # rest"
            and d: "(x = CHR '']'' \<and> r = rest) \<or> parse_array n (x # rest) [] = Inr (v, r)"
            by (auto split: list.splits if_splits)
          from d have "length r \<le> length rest"
            using ih3[of "x # rest" "[]" v r] by auto
          with skip_ws_Cons_length[OF w] Cons show ?thesis by simp
        next
          case False
          with a Cons nq nb
          have "(\<exists>k>0. r = drop k s) \<or> match_number s = Some (v, r)"
            by (auto split: if_splits option.splits)
          then show ?thesis
          proof
            assume "\<exists>k>0. r = drop k s"
            with Cons show ?thesis by auto
          next
            assume "match_number s = Some (v, r)"
            then show ?thesis by (rule match_number_shrinks)
          qed
        qed
      qed
    qed
  qed
  have two: "length r < length s" if a: "parse_object (Suc n) s pairs = Inr (v, r)" for s pairs v r
  proof -
    from a obtain q cs where s: "s = q # cs"
      by (cases s) simp_all
    from a s obtain key r1 where k: "scanstring cs [] = Inr (key, r1)"
      by (auto split: if_splits sum.splits)
    from a s k obtain colon r2 where c: "skip_ws r1 = colon # r2"
      by (auto split: if_splits list.splits)
    from a s k c obtain val r3 where v: "scan_once n (skip_ws r2) = Inr (val, r3)"
      by (auto split: if_splits sum.splits)
    from a s k c v obtain x r4 where x: "skip_ws r3 = x # r4"
      by (auto split: if_splits list.splits)
    from a s k c v x
    have d: "r = r4 \<or> parse_object n (skip_ws r4) (dict_set key val pairs) = Inr (v, r)"
      by (auto split: if_splits)
    have "length r \<le> length r4"
      using d ih2[of "skip_ws r4" "dict_set key val pairs" v r] skip_ws_length[of r4] by auto
    moreover have "length r4 < length r3" using skip_ws_Cons_length[OF x] .
    moreover have "length r3 < length r2"
      using ih1[OF v] skip_ws_length[of r2] by simp
    moreover have "length r2 < length r1" using skip_ws_Cons_length[OF c] .
    moreover have "length r1 < length cs" using scanstring_shrinks[OF k] .
    ultimately show ?thesis using s by simp
  qed
  have three: "length r < length s" if a: "parse_array (Suc n) s vals = Inr (v, r)" for s vals v r
  proof -
    from a obtain val r1 where v: "scan_once n s = Inr (val, r1)"
      by (auto split: sum.splits)
    from a v obtain x r2 where x: "skip_ws r1 = x # r2"
      by (auto split: list.splits)
    from a v x
    have d: "r = r2 \<or> parse_array n (skip_ws r2) (vals @ [val]) = Inr (v, r)"
      by (auto split: if_splits)
    have "length r \<le> length r2"
      using d ih3[of "skip_ws r2" "vals @ [val]" v r] skip_ws_length[of r2] by auto
    moreover have "length r2 < length r1" using skip_ws_Cons_length[OF x] .
    moreover have "length r1 < length s" using ih1[OF v] .
    ultimately show ?thesis by simp
  qed
  from one two three show ?case by blast
qed

lemma scan_once_shrinks: "scan_once n s = Inr (v, r) \<Longrightarrow> length r < length s"
  using scan_shrinks[of n, THEN conjunct1] by blast

lemma scan_enough_calls:
  "(\<forall>s. 2 * length s + 1 \<le> n \<longrightarrow> scan_once n s \<noteq> Inl RecursionError)
   \<and> (\<forall>s pairs. 2 * length s + 2 \<le> n \<longrightarrow> parse_object n s pairs \<noteq> Inl RecursionError)
   \<and> (\<forall>s vals. 2 * length s + 2 \<le> n \<longrightarrow> parse_array n s vals \<noteq> Inl RecursionError)"
proof (induction n)
  case 0
  show ?case by simp
next
  case (Suc n)
  then have ih1: "\<And>s. 2 * length s + 1 \<le> n \<Longrightarrow> scan_once n s \<noteq> Inl RecursionError"
    and ih2: "\<And>s pairs. 2 * length s + 2 \<le> n \<Longrightarrow> parse_object n s pairs \<noteq> Inl RecursionError"
    and ih3: "\<And>s vals. 2 * length s + 2 \<le> n \<Longrightarrow> parse_array n s vals \<noteq> Inl RecursionError"
    by blast+
  have one: "scan_once (Suc n) s \<noteq> Inl RecursionError" if b: "2 * length s + 1 \<le> Suc n" for s
  proof (cases s)
    case Nil
    then show ?thesis by simp
  next
    case (Cons c cs)
    have sub: "2 * length (x # rest) + 2 \<le> n" if "skip_ws cs = x # rest" for x rest
      using skip_ws_Cons_length[OF that] b Cons by simp
    show ?thesis
      unfolding Cons scan_once.simps
      using scanstring_error[of cs "[]"] ih2[OF sub] ih3[OF sub]
      by (auto split: sum.splits list.splits option.splits)
  qed
  have two: "parse_object (Suc n) s pairs \<noteq> Inl RecursionError"
    if b: "2 * length s + 2 \<le> Suc n" for s pairs
  proof
    assume a: "parse_object (Suc n) s pairs = Inl RecursionError"
    from a obtain q cs where s: "s = q # cs"
      by (cases s) simp_all
    from a s scanstring_error[of cs "[]"] obtain key r1
      where k: "scanstring cs [] = Inr (key, r1)"
      by (auto split: if_splits sum.splits)
    from a s k obtain colon r2 where c: "skip_ws r1 = colon # r2"
      by (auto split: if_splits list.splits)
    have l2: "length r2 + 2 \<le> length s"
      using skip_ws_Cons_length[OF c] scanstring_shrinks[OF k] s by simp
    then have "2 * length (skip_ws r2) + 1 \<le> n"
      using skip_ws_length[of r2] b by simp
    from ih1[OF this] a s k c obtain val r3
      where v: "scan_once n (skip_ws r2) = Inr (val, r3)"
      by (auto split: if_splits sum.splits)
    from a s k c v obtain x r4 where x: "skip_ws r3 = x # r4"
      by (auto split: if_splits list.splits)
    from a s k c v x
    have d: "parse_object n (skip_ws r4) (dict_set key val pairs) = Inl RecursionError"
      by (auto split: if_splits)
    have "length r4 < length r2"
      using skip_ws_Cons_length[OF x] scan_once_shrinks[OF v] skip_ws_length[of r2] by simp
    then have "2 * length (skip_ws r4) + 2 \<le> n"
      using skip_ws_length[of r4] l2 b by simp
    from ih2[OF this] d show False by blast
  qed
  have three: "parse_array (Suc n) s vals \<noteq> Inl RecursionError"
    if b: "2 * length s + 2 \<le> Suc n" for s vals
  proof
    assume a: "parse_array (Suc n) s vals = Inl RecursionError"
    from b have "2 * length s + 1 \<le> n" by simp
    from ih1[OF this] a obtain val r1 where v: "scan_once n s = Inr (val, r1)"
      by (auto split: sum.splits)
    from a v obtain x r2 where x: "skip_ws r1 = x # r2"
      by (auto split: list.splits)
    from a v x
    have d: "parse_array n (skip_ws r2) (vals @ [val]) = Inl RecursionError"
      by (auto split: if_splits)
    have "length r2 + 2 \<le> length s"
      using skip_ws_Cons_length[OF x] scan_once_shrinks[OF v] by simp
    then have "2 * length (skip_ws r2) + 2 \<le> n"
      using skip_ws_length[of r2] b by simp
    from ih3[OF this] d show False by blast
  qed
  from one two three show ?case by blast
qed

lemma json_loads_no_recursion_error: "json_loads s \<noteq> Inl RecursionError"
proof -
  define res where "res = scan_once (2 * length s + 2) (skip_ws s)"
  have "2 * length (skip_ws s) + 1 \<le> 2 * length s + 2"
    using skip_ws_length[of s] by simp
  then have "res \<noteq> Inl RecursionError"
    unfolding res_def
    by (rule scan_enough_calls[of "2 * length s + 2", THEN conjunct1, rule_format])
  moreover have "json_loads s =
      (case res of
         Inl e \<Rightarrow> Inl e
       | Inr (obj, rest) \<Rightarrow> if skip_ws rest = [] then Inr obj else Inl JSONDecodeError)"
    by (simp only: json_loads_def res_def)
  ultimately show ?thesis
    by (cases res) (auto split: prod.splits)
qed

section \<open>Properties of the JSON extraction\<close>

lemma greedy_dot_no_brace:
  "CHR ''}'' \<notin> set post \<Longrightarrow>
   match_here False [Greedy Dot, One (Lit CHR ''}''), GroupEnd] post gs g = None"
  by (induction post) auto

lemma greedy_dot_last_brace:
  assumes "CHR ''}'' \<notin> set post"
  shows "match_here False [Greedy Dot, One (Lit CHR ''}''), GroupEnd] (mid @ CHR ''}'' # post) gs g
           = Some (Some (take (length gs - length post) gs))"
proof (induction mid)
  case Nil
  show ?case using greedy_dot_no_brace[OF assms] by simp
next
  case (Cons c mid)
  then show ?case by simp
qed

lemma brace_pattern_at_brace:
  assumes "CHR ''}'' \<notin> set post"
  shows "match_here False brace_pattern (CHR ''{'' # mid @ CHR ''}'' # post) gs g
           = Some (Some (CHR ''{'' # mid @ [CHR ''}'']))"
  using greedy_dot_last_brace[OF assms] by (simp add: brace_pattern_def)

lemma brace_pattern_not_at_brace:
  "CHR ''{'' \<noteq> c \<Longrightarrow> match_here False brace_pattern (c # cs) gs g = None"
  by (auto simp: brace_pattern_def)

lemma brace_search_skips:
  "CHR ''{'' \<notin> set pre \<Longrightarrow>
   re_search False brace_pattern (pre @ c # cs) = re_search False brace_pattern (c # cs)"
  by (induction pre) (simp_all add: brace_pattern_not_at_brace)

lemma brace_search_span:
  assumes "CHR ''{'' \<notin> set pre" and "CHR ''}'' \<notin> set post"
  shows "re_search False brace_pattern (pre @ CHR ''{'' # mid @ CHR ''}'' # post)
           = Some (Some (CHR ''{'' # mid @ [CHR ''}'']))"
  using brace_search_skips[OF assms(1)] brace_pattern_at_brace[OF assms(2)] by simp

lemma brace_pattern_match_shape:
  assumes "match_here False brace_pattern s gs g = Some m"
  shows "\<exists>mid post. s = CHR ''{'' # mid @ CHR ''}'' # post"
proof (cases s)
  case Nil
  with assms show ?thesis by (simp add: brace_pattern_def)
next
  case (Cons c cs)
  with assms have c: "c = CHR ''{''"
    by (auto simp: brace_pattern_def split: if_splits)
  from assms Cons c
  have "match_here False [Greedy Dot, One (Lit CHR ''}''), GroupEnd] cs (c # cs) g = Some m"
    by (simp add: brace_pattern_def)
  with greedy_dot_no_brace have "CHR ''}'' \<in> set cs" by fastforce
  then obtain mid post where "cs = mid @ CHR ''}'' # post"
    by (auto dest: split_list)
  with Cons c show ?thesis by blast
qed

lemma brace_search_shape:
  "re_search False brace_pattern tx = Some m
     \<Longrightarrow> \<exists>pre mid post. tx = pre @ CHR ''{'' # mid @ CHR ''}'' # post"
proof (induction tx)
  case Nil
  then show ?case by (simp add: brace_pattern_def)
next
  case (Cons c cs)
  show ?case
  proof (cases "match_here False brace_pattern (c # cs) [] None")
    case None
    with Cons.prems have "re_search False brace_pattern cs = Some m" by simp
    from Cons.IH[OF this] obtain pre mid post
      where "cs = pre @ CHR ''{'' # mid @ CHR ''}'' # post" by blast
    then have "c # cs = (c # pre) @ CHR ''{'' # mid @ CHR ''}'' # post" by simp
    then show ?thesis by blast
  next
    case (Some a)
    from brace_pattern_match_shape[OF this] obtain mid post
      where "c # cs = [] @ CHR ''{'' # mid @ CHR ''}'' # post" by auto
    then show ?thesis by blast
  qed
qed

lemma match_here_group_closed:
  "match_here ic pat s gs g = Some m \<Longrightarrow> GroupEnd \<in> set pat \<or> g \<noteq> None \<Longrightarrow> m \<noteq> None"
  by (induction ic pat s gs g rule: match_here.induct)
     (auto split: if_splits option.splits)

lemma re_search_group_closed:
  "re_search ic pat tx = Some m \<Longrightarrow> GroupEnd \<in> set pat \<Longrightarrow> m \<noteq> None"
  by (induction tx) (auto split: option.splits dest: match_here_group_closed)

lemma fence_search_group: "re_search True fence_pattern tx \<noteq> Some None"
proof
  assume "re_search True fence_pattern tx = Some None"
  moreover have "GroupEnd \<in> set fence_pattern" by (simp add: fence_pattern_def)
  ultimately show False using re_search_group_closed by blast
qed

text \<open>
  C3, as the code has it. An empty text raises "Empty response from model". Otherwise the
  first pattern that matches decides, and its candidate alone is parsed: (1) group 1 of
  the \<open>```json\<close> fence pattern, which always takes part in a match; else (2) the span from
  the first \<open>{\<close> to the last \<open>}\<close>, whenever a \<open>{\<close> comes before some \<open>}\<close>; else (3) the
  whole text. The result is what \<open>json.loads\<close> makes of that candidate, its error
  included. The prose example yields the full outer object.
\<close>

theorem extract_json_maybe_strategy:
  \<open>(tx = [] \<longrightarrow> extract_json_maybe tx = Inl (ValueError ''Empty response from model''))
   \<and> re_search True fence_pattern tx \<noteq> Some None
   \<and> (tx \<noteq> [] \<and> re_search True fence_pattern tx = Some (Some g)
        \<longrightarrow> extract_json_maybe tx = json_loads g)
   \<and> (re_search True fence_pattern tx = None
        \<and> tx = pre @ CHR ''{'' # mid @ CHR ''}'' # post
        \<and> CHR ''{'' \<notin> set pre \<and> CHR ''}'' \<notin> set post
        \<longrightarrow> extract_json_maybe tx = json_loads (CHR ''{'' # mid @ [CHR ''}'']))
   \<and> (tx \<noteq> [] \<and> re_search True fence_pattern tx = None
        \<and> (\<nexists>p m s. tx = p @ CHR ''{'' # m @ CHR ''}'' # s)
        \<longrightarrow> extract_json_maybe tx = json_loads tx)
   \<and> extract_json_maybe ex_prose = Inr (JObj [(''a'', JObj [(''slides'', JArr [])])])\<close>
proof (intro conjI impI)
  assume "tx = []"
  then show "extract_json_maybe tx = Inl (ValueError ''Empty response from model'')"
    by (simp add: extract_json_maybe_def)
next
  show "re_search True fence_pattern tx \<noteq> Some None"
    by (rule fence_search_group)
next
  assume "tx \<noteq> [] \<and> re_search True fence_pattern tx = Some (Some g)"
  then show "extract_json_maybe tx = json_loads g"
    by (simp add: extract_json_maybe_def loads_group_def)
next
  assume a: "re_search True fence_pattern tx = None
        \<and> tx = pre @ CHR ''{'' # mid @ CHR ''}'' # post
        \<and> CHR ''{'' \<notin> set pre \<and> CHR ''}'' \<notin> set post"
  then have f: "re_search True fence_pattern tx = None"
    and d: "tx = pre @ CHR ''{'' # mid @ CHR ''}'' # post"
    and p: "CHR ''{'' \<notin> set pre" "CHR ''}'' \<notin> set post"
    by blast+
  have b: "re_search False brace_pattern tx = Some (Some (CHR ''{'' # mid @ [CHR ''}'']))"
    unfolding d using p by (rule brace_search_span)
  have ne: "tx \<noteq> []" using d by simp
  show "extract_json_maybe tx = json_loads (CHR ''{'' # mid @ [CHR ''}''])"
    by (simp add: extract_json_maybe_def loads_group_def f b ne)
next
  assume a: "tx \<noteq> [] \<and> re_search True fence_pattern tx = None
        \<and> (\<nexists>p m s. tx = p @ CHR ''{'' # m @ CHR ''}'' # s)"
  have "re_search False brace_pattern tx = None"
  proof (cases "re_search False brace_pattern tx")
    case None
    then show ?thesis .
  next
    case (Some m)
    from brace_search_shape[OF this] a show ?thesis by blast
  qed
  with a show "extract_json_maybe tx = json_loads tx"
    by (simp add: extract_json_maybe_def)
next
  show \<open>extract_json_maybe ex_prose = Inr (JObj [(''a'', JObj [(''slides'', JArr [])])])\<close>
    by code_simp
qed

theorem extract_json_maybe_strategy_witness:
  \<open>extract_json_maybe ex_prose = json_loads ''{"a": {"slides": []}}''
   \<and> json_loads ''{"a": {"slides": []}}'' = Inr (JObj [(''a'', JObj [(''slides'', JArr [])])])
   \<and> re_search True fence_pattern ex_fenced = Some (Some ''{"slides":[]}'')
   \<and> extract_json_maybe ex_fenced = Inr (JObj [(''slides'', JArr [])])\<close>
proof -
  have n: "re_search True fence_pattern ex_prose = None"
    by code_simp
  have d: \<open>ex_prose = ''Here's the answer: '' @ CHR ''{'' # ''"a": {"slides": []}'' @ CHR ''}'' # '' done''\<close>
    by (simp add: ex_prose_def)
  have s: \<open>CHR ''{'' \<notin> set ''Here's the answer: '' \<and> CHR ''}'' \<notin> set '' done''\<close>
    by simp
  have f: \<open>re_search True fence_pattern ex_fenced = Some (Some ''{"slides":[]}'')\<close>
    by code_simp
  have e: "ex_fenced \<noteq> []" by (simp add: ex_fenced_def)
  have j1: \<open>json_loads ''{"a": {"slides": []}}'' = Inr (JObj [(''a'', JObj [(''slides'', JArr [])])])\<close>
    by code_simp
  have j2: \<open>json_loads ''{"slides":[]}'' = Inr (JObj [(''slides'', JArr [])])\<close>
    by code_simp
  note t1 = extract_json_maybe_strategy[where tx = ex_prose,
      THEN conjunct2, THEN conjunct2, THEN conjunct2, THEN conjunct1, THEN mp]
  note t2 = extract_json_maybe_strategy[where tx = ex_fenced,
      THEN conjunct2, THEN conjunct2, THEN conjunct1, THEN mp]
  from n d s have \<open>extract_json_maybe ex_prose = json_loads (CHR ''{'' # ''"a": {"slides": []}'' @ [CHR ''}''])\<close>
    by (intro t1) blast
  then have \<open>extract_json_maybe ex_prose = json_loads ''{"a": {"slides": []}}''\<close>
    by simp
  moreover from e f have \<open>extract_json_maybe ex_fenced = json_loads ''{"slides":[]}''\<close>
    by (intro t2) blast
  ultimately show ?thesis using j1 j2 f by simp
qed

text \<open>
  A text whose fence candidate does not parse while its brace span does: the code raises
  the parse error of the fence candidate, whereas "the first successful parse wins" would
  return the object.
\<close>

theorem first_successful_parse_counterexample:
  \<open>re_search True fence_pattern ex_fence_inside = Some (Some ''{oops}'')
   \<and> extract_json_maybe ex_fence_inside = Inl JSONDecodeError
   \<and> candidates ex_fence_inside = [''{oops}'', ex_fence_inside, ex_fence_inside]
   \<and> json_loads ex_fence_inside = Inr (JObj [(''x'', JStr ''```json {oops} ```'')])
   \<and> extract_first_success ex_fence_inside = Inr (JObj [(''x'', JStr ''```json {oops} ```'')])
   \<and> extract_json_maybe ex_fence_inside \<noteq> extract_first_success ex_fence_inside\<close>
proof -
  have a: \<open>re_search True fence_pattern ex_fence_inside = Some (Some ''{oops}'')\<close>
    by code_simp
  have b: "extract_json_maybe ex_fence_inside = Inl JSONDecodeError"
    by code_simp
  have c: \<open>candidates ex_fence_inside = [''{oops}'', ex_fence_inside, ex_fence_inside]\<close>
    by code_simp
  have d: \<open>json_loads ex_fence_inside = Inr (JObj [(''x'', JStr ''```json {oops} ```'')])\<close>
    by code_simp
  have e: \<open>extract_first_success ex_fence_inside = Inr (JObj [(''x'', JStr ''```json {oops} ```'')])\<close>
    by code_simp
  from a b c d e show ?thesis by simp
qed

section \<open>Properties of the call strategies\<close>

lemma http_post_state:
  "http_post env req st = (net_post env (rs_calls st) req, st\<lparr>rs_calls := Suc (rs_calls st)\<rparr>)"
  by (simp add: http_post_def)

lemma call_openai_state:
  "snd (call_openai env model api_key p st) = st\<lparr>rs_calls := Suc (rs_calls st)\<rparr>"
  by (simp add: call_openai_def http_post_def)

lemma call_anthropic_state:
  "snd (call_anthropic env model api_key p st) = st\<lparr>rs_calls := Suc (rs_calls st)\<rparr>"
  by (simp add: call_anthropic_def http_post_def)

lemma call_gemini_state:
  "snd (call_gemini env model api_key p st) = st\<lparr>rs_calls := Suc (rs_calls st)\<rparr>"
  by (simp add: call_gemini_def http_post_def)

text \<open>
  C6, as the code has it. For every response with a status code of 400 or more, each of
  the three call strategies raises \<open>HTTPStatusError\<close>; the message is the provider label,
  \<open>HTTP\<close>, the status code and the first 500 characters of the body at most (or
  \<open><no body>\<close> when the body cannot be read), and the error carries the request of the
  response and the response itself.
\<close>

theorem provider_error_from_400:
  assumes "resp_status_code resp \<ge> 400"
  shows "(net_post env (rs_calls st) (openai_request env model api_key p) = Inr resp
          \<longrightarrow> fst (call_openai env model api_key p st)
                = Inl (HTTPStatusError
                        (''OpenAI-compatible HTTP '' @ show_nat (resp_status_code resp) @ '': ''
                           @ error_body resp)
                        (resp_request resp) resp))
       \<and> (net_post env (rs_calls st) (anthropic_request model api_key p) = Inr resp
          \<longrightarrow> fst (call_anthropic env model api_key p st)
                = Inl (HTTPStatusError
                        (''Anthropic HTTP '' @ show_nat (resp_status_code resp) @ '': ''
                           @ error_body resp)
                        (resp_request resp) resp))
       \<and> (net_post env (rs_calls st) (gemini_request model api_key p) = Inr resp
          \<longrightarrow> fst (call_gemini env model api_key p st)
                = Inl (HTTPStatusError
                        (''Gemini HTTP '' @ show_nat (resp_status_code resp) @ '': ''
                           @ error_body resp)
                        (resp_request resp) resp))
       \<and> length (error_body resp) \<le> 500"
proof (intro conjI impI)
  assume "net_post env (rs_calls st) (openai_request env model api_key p) = Inr resp"
  with assms show "fst (call_openai env model api_key p st)
                = Inl (HTTPStatusError
                        (''OpenAI-compatible HTTP '' @ show_nat (resp_status_code resp) @ '': ''
                           @ error_body resp)
                        (resp_request resp) resp)"
    by (simp add: call_openai_def http_post_def raise_for_provider_error_def error_body_def)
next
  assume "net_post env (rs_calls st) (anthropic_request model api_key p) = Inr resp"
  with assms show "fst (call_anthropic env model api_key p st)
                = Inl (HTTPStatusError
                        (''Anthropic HTTP '' @ show_nat (resp_status_code resp) @ '': ''
                           @ error_body resp)
                        (resp_request resp) resp)"
    by (simp add: call_anthropic_def http_post_def raise_for_provider_error_def error_body_def)
next
  assume "net_post env (rs_calls st) (gemini_request model api_key p) = Inr resp"
  with assms show "fst (call_gemini env model api_key p st)
                = Inl (HTTPStatusError
                        (''Gemini HTTP '' @ show_nat (resp_status_code resp) @ '': ''
                           @ error_body resp)
                        (resp_request resp) resp)"
    by (simp add: call_gemini_def http_post_def raise_for_provider_error_def error_body_def)
next
  show "length (error_body resp) \<le> 500"
    by (simp add: error_body_def)
qed

theorem provider_error_from_400_witness:
  "fst (call_openai (ex_net 503 ''Service Unavailable'') ''m'' ''k'' ex_payload ex_state)
     = Inl (HTTPStatusError ''OpenAI-compatible HTTP 503: Service Unavailable''
              (openai_request (ex_net 503 ''Service Unavailable'') ''m'' ''k'' ex_payload)
              (ex_response 503 ''Service Unavailable''
                 (openai_request (ex_net 503 ''Service Unavailable'') ''m'' ''k'' ex_payload)))"
proof -
  define env where "env = ex_net 503 ''Service Unavailable''"
  define req where "req = openai_request env ''m'' ''k'' ex_payload"
  define resp where "resp = ex_response 503 ''Service Unavailable'' req"
  have s: "resp_status_code resp \<ge> 400"
    by (simp add: resp_def ex_response_def)
  have p: "net_post env (rs_calls ex_state) (openai_request env ''m'' ''k'' ex_payload) = Inr resp"
    by (simp add: env_def ex_net_def resp_def req_def)
  have n: "show_nat (resp_status_code resp) = ''503''"
    unfolding resp_def ex_response_def by code_simp
  have b: "error_body resp = ''Service Unavailable''"
    by (simp add: error_body_def resp_def ex_response_def)
  have r: "resp_request resp = req"
    by (simp add: resp_def ex_response_def)
  from provider_error_from_400[OF s, where env = env and st = ex_state and model = "''m''"
      and api_key = "''k''" and p = ex_payload, THEN conjunct1, THEN mp, OF p]
  show ?thesis
    unfolding n b r by (simp add: env_def req_def resp_def)
qed

text \<open>
  A response with status 302 is not an error for the strategy: its body is decoded and
  the outline in it returned.
\<close>

theorem non_2xx_counterexample:
  "resp_status_code (ex_response 302 ex_openai_body ex_request) = 302
   \<and> fst (call_openai (ex_net 302 ex_openai_body) ''m'' ''k'' ex_payload ex_state) = Inr (JObj [])"
proof -
  have "fst (call_openai (ex_net 302 ex_openai_body) ''m'' ''k'' ex_payload ex_state) = Inr (JObj [])"
    by code_simp
  then show ?thesis by (simp add: ex_response_def)
qed

section \<open>Properties of the retried entry point\<close>

lemma outline_attempt_state:
  "snd (outline_attempt env provider model api_key raw_text guidance st)
     = st\<lparr>rs_calls := rs_calls st + (if supported_provider provider then 1 else 0)\<rparr>"
  by (simp add: outline_attempt_def supported_provider_def py_or_def Let_def
        call_openai_state call_anthropic_state call_gemini_state)

lemma outline_attempt_unsupported:
  assumes "\<not> supported_provider provider"
  shows "outline_attempt env provider model api_key raw_text guidance st
           = (Inl (ValueError ''Unsupported provider. Use openai|anthropic|gemini.''), st)"
  using assms by (simp add: outline_attempt_def supported_provider_def py_or_def Let_def)

lemma retrying_three_failures:
  assumes a1: "fn (st\<lparr>rs_attempts := Suc (rs_attempts st)\<rparr>) = (Inl e1, s1)"
    and a2: "fn (s1\<lparr>rs_sleeps := rs_sleeps s1 @ [wait 1],
                   rs_attempts := Suc (rs_attempts s1)\<rparr>) = (Inl e2, s2)"
    and a3: "fn (s2\<lparr>rs_sleeps := rs_sleeps s2 @ [wait 2],
                   rs_attempts := Suc (rs_attempts s2)\<rparr>) = (Inl e3, s3)"
  shows "retrying 3 wait fn 1 st = (Inl (RetryError e3), s3)"
proof -
  have "retrying 3 wait fn 3 (s2\<lparr>rs_sleeps := rs_sleeps s2 @ [wait 2]\<rparr>) = (Inl (RetryError e3), s3)"
    using a3 by (subst retrying.simps) simp
  then have "retrying 3 wait fn 2 (s1\<lparr>rs_sleeps := rs_sleeps s1 @ [wait 1]\<rparr>)
               = (Inl (RetryError e3), s3)"
    using a2 by (subst retrying.simps) (simp add: numeral_3_eq_3 numeral_2_eq_2)
  then show ?thesis
    using a1 by (subst retrying.simps) (simp add: numeral_2_eq_2)
qed

lemma wait_bounds:
  assumes "0 \<le> j" and "j \<le> 1"
  shows "1 \<le> wait_exponential_jitter 1 8 1 j \<and> wait_exponential_jitter 1 8 1 j \<le> 2
       \<and> 2 \<le> wait_exponential_jitter 1 8 2 j \<and> wait_exponential_jitter 1 8 2 j \<le> 3"
  using assms by (simp add: wait_exponential_jitter_def)

text \<open>
  C2, as the code has it. When each of the three attempts raises (the first from the
  initial state, the second and the third from the state that the failed attempt before
  it left, after the sleep), \<open>generate_slide_outline\<close> makes exactly 3 attempts (3 POSTs
  for a supported provider) and sleeps twice in between, between 1 and 2 seconds and then
  between 2 and 3 seconds; what reaches the caller is a \<open>RetryError\<close> that wraps the
  exception of the third attempt. Nothing is assumed of an attempt that is not made.
\<close>

theorem retry_exhaustion:
  assumes a1: "outline_attempt env provider model api_key raw_text guidance
                 \<lparr>rs_calls = 0, rs_sleeps = [], rs_attempts = 1\<rparr> = (Inl e1, s1)"
    and a2: "outline_attempt env provider model api_key raw_text guidance
               (s1\<lparr>rs_sleeps := rs_sleeps s1 @ [wait_exponential_jitter 1 8 1 (net_jitter env 1)],
                   rs_attempts := 2\<rparr>) = (Inl e2, s2)"
    and a3: "outline_attempt env provider model api_key raw_text guidance
               (s2\<lparr>rs_sleeps := rs_sleeps s2 @ [wait_exponential_jitter 1 8 2 (net_jitter env 2)],
                   rs_attempts := 3\<rparr>) = (Inl e3, s3)"
    and j1: "0 \<le> net_jitter env 1 \<and> net_jitter env 1 \<le> 1"
    and j2: "0 \<le> net_jitter env 2 \<and> net_jitter env 2 \<le> 1"
  shows "generate_slide_outline env provider model api_key raw_text guidance
           = (Inl (RetryError e3), s3)
       \<and> rs_attempts s3 = 3
       \<and> rs_calls s3 = (if supported_provider provider then 3 else 0)
       \<and> rs_sleeps s3 = [wait_exponential_jitter 1 8 1 (net_jitter env 1),
                         wait_exponential_jitter 1 8 2 (net_jitter env 2)]
       \<and> 1 \<le> wait_exponential_jitter 1 8 1 (net_jitter env 1)
       \<and> wait_exponential_jitter 1 8 1 (net_jitter env 1) \<le> 2
       \<and> 2 \<le> wait_exponential_jitter 1 8 2 (net_jitter env 2)
       \<and> wait_exponential_jitter 1 8 2 (net_jitter env 2) \<le> 3"
proof -
  define A where "A = outline_attempt env provider model api_key raw_text guidance"
  define wait where "wait = (\<lambda>n. wait_exponential_jitter 1 8 n (net_jitter env n))"
  define k :: nat where "k = (if supported_provider provider then 1 else 0)"
  have st: "snd (A st) = st\<lparr>rs_calls := rs_calls st + k\<rparr>" for st
    by (simp add: A_def k_def outline_attempt_state)
  have f1: "A \<lparr>rs_calls = 0, rs_sleeps = [], rs_attempts = 1\<rparr> = (Inl e1, s1)"
    using a1 by (simp add: A_def)
  have f2: "A (s1\<lparr>rs_sleeps := rs_sleeps s1 @ [wait 1], rs_attempts := 2\<rparr>) = (Inl e2, s2)"
    using a2 by (simp add: A_def wait_def)
  have f3: "A (s2\<lparr>rs_sleeps := rs_sleeps s2 @ [wait 2], rs_attempts := 3\<rparr>) = (Inl e3, s3)"
    using a3 by (simp add: A_def wait_def)
  have "s1 = snd (A \<lparr>rs_calls = 0, rs_sleeps = [], rs_attempts = 1\<rparr>)"
    by (simp only: f1 snd_conv)
  then have s1: "s1 = \<lparr>rs_calls = k, rs_sleeps = [], rs_attempts = 1\<rparr>"
    by (simp add: st)
  have "s2 = snd (A (s1\<lparr>rs_sleeps := rs_sleeps s1 @ [wait 1], rs_attempts := 2\<rparr>))"
    by (simp only: f2 snd_conv)
  then have s2: "s2 = \<lparr>rs_calls = k + k, rs_sleeps = [wait 1], rs_attempts = 2\<rparr>"
    by (simp add: st s1)
  have "s3 = snd (A (s2\<lparr>rs_sleeps := rs_sleeps s2 @ [wait 2], rs_attempts := 3\<rparr>))"
    by (simp only: f3 snd_conv)
  then have s3: "s3 = \<lparr>rs_calls = k + k + k, rs_sleeps = [wait 1, wait 2], rs_attempts = 3\<rparr>"
    by (simp add: st s2)
  have "retrying 3 wait A 1 \<lparr>rs_calls = 0, rs_sleeps = [], rs_attempts = 0\<rparr>
          = (Inl (RetryError e3), s3)"
  proof (rule retrying_three_failures[where ?e1.0 = e1 and ?s1.0 = s1
                                        and ?e2.0 = e2 and ?s2.0 = s2])
    show "A (\<lparr>rs_calls = 0, rs_sleeps = [], rs_attempts = 0\<rparr>
              \<lparr>rs_attempts := Suc (rs_attempts \<lparr>rs_calls = 0, rs_sleeps = [], rs_attempts = 0\<rparr>)\<rparr>)
            = (Inl e1, s1)"
      using f1 by simp
    have "rs_attempts s1 = 1" by (simp add: s1)
    then show "A (s1\<lparr>rs_sleeps := rs_sleeps s1 @ [wait 1], rs_attempts := Suc (rs_attempts s1)\<rparr>)
            = (Inl e2, s2)"
      using f2 by (simp add: numeral_2_eq_2)
    have "rs_attempts s2 = 2" by (simp add: s2)
    then show "A (s2\<lparr>rs_sleeps := rs_sleeps s2 @ [wait 2], rs_attempts := Suc (rs_attempts s2)\<rparr>)
            = (Inl e3, s3)"
      using f3 by (simp add: numeral_3_eq_3)
  qed
  then have g: "generate_slide_outline env provider model api_key raw_text guidance
                  = (Inl (RetryError e3), s3)"
    by (simp add: generate_slide_outline_def A_def wait_def)
  from j1 have b1: "0 \<le> net_jitter env 1" "net_jitter env 1 \<le> 1" by simp_all
  from j2 have b2: "0 \<le> net_jitter env 2" "net_jitter env 2 \<le> 1" by simp_all
  have w: "1 \<le> wait 1" "wait 1 \<le> 2" "2 \<le> wait 2" "wait 2 \<le> 3"
    using wait_bounds[OF b1] wait_bounds[OF b2] by (simp_all add: wait_def)
  have c: "rs_attempts s3 = 3" "rs_sleeps s3 = [wait 1, wait 2]"
          "rs_calls s3 = (if supported_provider provider then 3 else 0)"
    by (simp_all add: s3 k_def)
  from g c w show ?thesis
    by (simp add: wait_def)
qed

text \<open>
  C1, as the code has it. For a provider string whose trimmed, lower-cased form is none
  of openai, anthropic and gemini, every attempt raises the "Unsupported provider"
  \<open>ValueError\<close> without a network call; the decorator retries it like any other
  exception, so the call makes 3 attempts, sleeps twice, issues no POST and ends in a
  \<open>RetryError\<close> around that \<open>ValueError\<close>.
\<close>

theorem unsupported_provider_retried:
  assumes "py_lower (py_strip provider) \<notin> {''openai'', ''anthropic'', ''gemini''}"
  shows "outline_attempt env provider model api_key raw_text guidance st
           = (Inl (ValueError ''Unsupported provider. Use openai|anthropic|gemini.''), st)
       \<and> generate_slide_outline env provider model api_key raw_text guidance
           = (Inl (RetryError (ValueError ''Unsupported provider. Use openai|anthropic|gemini.'')),
              \<lparr>rs_calls = 0,
               rs_sleeps = [wait_exponential_jitter 1 8 1 (net_jitter env 1),
                            wait_exponential_jitter 1 8 2 (net_jitter env 2)],
               rs_attempts = 3\<rparr>)"
proof -
  from assms have u: "\<not> supported_provider provider"
    by (simp add: supported_provider_def)
  define A where "A = outline_attempt env provider model api_key raw_text guidance"
  define wait where "wait = (\<lambda>n. wait_exponential_jitter 1 8 n (net_jitter env n))"
  define err where "err = ValueError ''Unsupported provider. Use openai|anthropic|gemini.''"
  have a: "A s = (Inl err, s)" for s
    unfolding A_def err_def using u by (rule outline_attempt_unsupported)
  have "retrying 3 wait A 1 \<lparr>rs_calls = 0, rs_sleeps = [], rs_attempts = 0\<rparr>
          = (Inl (RetryError err),
             \<lparr>rs_calls = 0, rs_sleeps = [wait 1, wait 2], rs_attempts = 3\<rparr>)"
    by (rule retrying_three_failures[where ?e1.0 = err and ?e2.0 = err
          and ?s1.0 = "\<lparr>rs_calls = 0, rs_sleeps = [], rs_attempts = 1\<rparr>"
          and ?s2.0 = "\<lparr>rs_calls = 0, rs_sleeps = [wait 1], rs_attempts = 2\<rparr>"])
       (simp_all add: a numeral_2_eq_2 numeral_3_eq_3)
  then have "generate_slide_outline env provider model api_key raw_text guidance
           = (Inl (RetryError err),
              \<lparr>rs_calls = 0, rs_sleeps = [wait 1, wait 2], rs_attempts = 3\<rparr>)"
    by (simp add: generate_slide_outline_def A_def wait_def)
  with a[of st] show ?thesis
    by (simp add: A_def wait_def err_def)
qed

theorem unsupported_provider_retried_witness:
  "generate_slide_outline (ex_net 200 ex_openai_body) ''ftp'' [] ''k'' ''some text'' []
     = (Inl (RetryError (ValueError ''Unsupported provider. Use openai|anthropic|gemini.'')),
        \<lparr>rs_calls = 0, rs_sleeps = [3 / 2, 5 / 2], rs_attempts = 3\<rparr>)"
proof -
  have "py_lower (py_strip ''ftp'') = ''ftp''"
    by code_simp
  then have h: "py_lower (py_strip ''ftp'') \<notin> {''openai'', ''anthropic'', ''gemini''}"
    by simp
  have w: "wait_exponential_jitter 1 8 1 (net_jitter (ex_net 200 ex_openai_body) 1) = 3 / 2"
          "wait_exponential_jitter 1 8 2 (net_jitter (ex_net 200 ex_openai_body) 2) = 5 / 2"
    by (simp_all add: wait_exponential_jitter_def ex_net_def)
  from unsupported_provider_retried[OF h, where env = "ex_net 200 ex_openai_body"
      and model = "[]" and api_key = "''k''" and raw_text = "''some text''" and guidance = "[]",
      THEN conjunct2]
  show ?thesis unfolding w .
qed

text \<open>
  An unsupported provider, run: three attempts, two sleeps, and a \<open>RetryError\<close> at the end.
\<close>

theorem fails_immediately_counterexample:
  "generate_slide_outline (ex_net 200 ex_openai_body) ''azure'' [] ''k'' ''some text'' []
     = (Inl (RetryError (ValueError ''Unsupported provider. Use openai|anthropic|gemini.'')),
        \<lparr>rs_calls = 0, rs_sleeps = [3 / 2, 5 / 2], rs_attempts = 3\<rparr>)"
proof -
  define A where "A = outline_attempt (ex_net 200 ex_openai_body) ''azure'' [] ''k'' ''some text'' []"
  define wait where
    "wait = (\<lambda>n. wait_exponential_jitter 1 8 n (net_jitter (ex_net 200 ex_openai_body) n))"
  define err where "err = ValueError ''Unsupported provider. Use openai|anthropic|gemini.''"
  have "py_lower (py_strip ''azure'') = ''azure''"
    by code_simp
  then have "\<not> supported_provider ''azure''"
    by (simp add: supported_provider_def)
  then have a: "A s = (Inl err, s)" for s
    unfolding A_def err_def by (rule outline_attempt_unsupported)
  have w: "wait 1 = 3 / 2" "wait 2 = 5 / 2"
    by (simp_all add: wait_def wait_exponential_jitter_def ex_net_def)
  have "retrying 3 wait A 1 \<lparr>rs_calls = 0, rs_sleeps = [], rs_attempts = 0\<rparr>
          = (Inl (RetryError err),
             \<lparr>rs_calls = 0, rs_sleeps = [wait 1, wait 2], rs_attempts = 3\<rparr>)"
    by (rule retrying_three_failures[where ?e1.0 = err and ?e2.0 = err
          and ?s1.0 = "\<lparr>rs_calls = 0, rs_sleeps = [], rs_attempts = 1\<rparr>"
          and ?s2.0 = "\<lparr>rs_calls = 0, rs_sleeps = [wait 1], rs_attempts = 2\<rparr>"])
       (simp_all add: a numeral_2_eq_2 numeral_3_eq_3)
  then show ?thesis
    unfolding w by (simp add: generate_slide_outline_def A_def wait_def err_def)
qed

lemma ex_attempt_503:
  "outline_attempt (ex_net 503 ''down'') ''openai'' [] ''k'' ''some text'' [] st
     = (Inl ex_final_error, st\<lparr>rs_calls := Suc (rs_calls st)\<rparr>)"
proof -
  have n: "py_lower (py_strip ''openai'') = ''openai''"
    by code_simp
  have t: "take 60000 ''some text'' = ''some text''"
    by simp
  show ?thesis
    by (simp add: outline_attempt_def n t py_or_def Let_def call_openai_def http_post_def
          ex_final_error_def ex_net_def ex_response_def del: take_Cons_numeral)
qed

lemma ex_attempt_flaky:
  assumes "rs_calls st < 3"
  shows "outline_attempt ex_flaky_net ''openai'' [] ''k'' ''some text'' [] st
           = (Inl TransportError, st\<lparr>rs_calls := Suc (rs_calls st)\<rparr>)"
proof -
  have n: "py_lower (py_strip ''openai'') = ''openai''"
    by code_simp
  have t: "take 60000 ''some text'' = ''some text''"
    by simp
  show ?thesis
    using assms
    by (simp add: outline_attempt_def n t py_or_def Let_def call_openai_def http_post_def
          ex_flaky_net_def del: take_Cons_numeral)
qed

text \<open>
  A transport that fails the first three POSTs and would answer a fourth: the three
  attempts raise, three POSTs are made, and the call ends in \<open>RetryError\<close>.
\<close>

theorem retry_exhaustion_witness:
  "generate_slide_outline ex_flaky_net ''openai'' [] ''k'' ''some text'' []
     = (Inl (RetryError TransportError),
        \<lparr>rs_calls = 3, rs_sleeps = [3 / 2, 5 / 2], rs_attempts = 3\<rparr>)
   \<and> net_post ex_flaky_net 3 ex_request = Inr (ex_response 200 ex_openai_body ex_request)"
proof -
  have w: "wait_exponential_jitter 1 8 1 (net_jitter ex_flaky_net 1) = 3 / 2"
          "wait_exponential_jitter 1 8 2 (net_jitter ex_flaky_net 2) = 5 / 2"
    by (simp_all add: wait_exponential_jitter_def ex_flaky_net_def)
  have a1: "outline_attempt ex_flaky_net ''openai'' [] ''k'' ''some text'' []
              \<lparr>rs_calls = 0, rs_sleeps = [], rs_attempts = 1\<rparr>
            = (Inl TransportError, \<lparr>rs_calls = 1, rs_sleeps = [], rs_attempts = 1\<rparr>)"
    by (simp add: ex_attempt_flaky)
  have a2: "outline_attempt ex_flaky_net ''openai'' [] ''k'' ''some text'' []
              (\<lparr>rs_calls = 1, rs_sleeps = [], rs_attempts = 1\<rparr>
                 \<lparr>rs_sleeps := rs_sleeps \<lparr>rs_calls = 1, rs_sleeps = [], rs_attempts = 1\<rparr>
                                 @ [wait_exponential_jitter 1 8 1 (net_jitter ex_flaky_net 1)],
                  rs_attempts := 2\<rparr>)
            = (Inl TransportError, \<lparr>rs_calls = 2, rs_sleeps = [3 / 2], rs_attempts = 2\<rparr>)"
    unfolding w by (simp add: ex_attempt_flaky)
  have a3: "outline_attempt ex_flaky_net ''openai'' [] ''k'' ''some text'' []
              (\<lparr>rs_calls = 2, rs_sleeps = [3 / 2], rs_attempts = 2\<rparr>
                 \<lparr>rs_sleeps := rs_sleeps \<lparr>rs_calls = 2, rs_sleeps = [3 / 2], rs_attempts = 2\<rparr>
                                 @ [wait_exponential_jitter 1 8 2 (net_jitter ex_flaky_net 2)],
                  rs_attempts := 3\<rparr>)
            = (Inl TransportError, \<lparr>rs_calls = 3, rs_sleeps = [3 / 2, 5 / 2], rs_attempts = 3\<rparr>)"
    unfolding w by (simp add: ex_attempt_flaky)
  have j: "0 \<le> net_jitter ex_flaky_net 1 \<and> net_jitter ex_flaky_net 1 \<le> 1"
          "0 \<le> net_jitter ex_flaky_net 2 \<and> net_jitter ex_flaky_net 2 \<le> 1"
    by (simp_all add: ex_flaky_net_def)
  have "net_post ex_flaky_net 3 ex_request = Inr (ex_response 200 ex_openai_body ex_request)"
    by (simp add: ex_flaky_net_def)
  with retry_exhaustion[OF a1 a2 a3 j, THEN conjunct1] show ?thesis
    by simp
qed

text \<open>
  Three attempts answered with status 503: the third attempt raises \<open>ex_final_error\<close>, and
  the caller receives a \<open>RetryError\<close> around it, not that exception.
\<close>

theorem final_exception_propagates_counterexample:
  "fst (outline_attempt (ex_net 503 ''down'') ''openai'' [] ''k'' ''some text'' []
          \<lparr>rs_calls = 2, rs_sleeps = [3 / 2, 5 / 2], rs_attempts = 3\<rparr>)
     = Inl ex_final_error
   \<and> generate_slide_outline (ex_net 503 ''down'') ''openai'' [] ''k'' ''some text'' []
     = (Inl (RetryError ex_final_error),
        \<lparr>rs_calls = 3, rs_sleeps = [3 / 2, 5 / 2], rs_attempts = 3\<rparr>)
   \<and> RetryError ex_final_error \<noteq> ex_final_error"
proof -
  define A where "A = outline_attempt (ex_net 503 ''down'') ''openai'' [] ''k'' ''some text'' []"
  define wait where
    "wait = (\<lambda>n. wait_exponential_jitter 1 8 n (net_jitter (ex_net 503 ''down'') n))"
  have a: "A s = (Inl ex_final_error, s\<lparr>rs_calls := Suc (rs_calls s)\<rparr>)" for s
    unfolding A_def by (rule ex_attempt_503)
  have w: "wait 1 = 3 / 2" "wait 2 = 5 / 2"
    by (simp_all add: wait_def wait_exponential_jitter_def ex_net_def)
  have "retrying 3 wait A 1 \<lparr>rs_calls = 0, rs_sleeps = [], rs_attempts = 0\<rparr>
          = (Inl (RetryError ex_final_error),
             \<lparr>rs_calls = 3, rs_sleeps = [wait 1, wait 2], rs_attempts = 3\<rparr>)"
    by (rule retrying_three_failures[where ?e1.0 = ex_final_error and ?e2.0 = ex_final_error
          and ?s1.0 = "\<lparr>rs_calls = 1, rs_sleeps = [], rs_attempts = 1\<rparr>"
          and ?s2.0 = "\<lparr>rs_calls = 2, rs_sleeps = [wait 1], rs_attempts = 2\<rparr>"])
       (simp_all add: a numeral_2_eq_2 numeral_3_eq_3)
  then have g: "generate_slide_outline (ex_net 503 ''down'') ''openai'' [] ''k'' ''some text'' []
     = (Inl (RetryError ex_final_error),
        \<lparr>rs_calls = 3, rs_sleeps = [3 / 2, 5 / 2], rs_attempts = 3\<rparr>)"
    unfolding w by (simp add: generate_slide_outline_def A_def wait_def)
  have "RetryError ex_final_error \<noteq> ex_final_error"
    by (simp add: ex_final_error_def raise_for_provider_error_def)
  with g a[of "\<lparr>rs_calls = 2, rs_sleeps = [3 / 2, 5 / 2], rs_attempts = 3\<rparr>"]
  show ?thesis by (simp add: A_def)
qed

end
